theory Spec2Isabelle
  imports Complex_Main "HOL-Library.AList"
begin

section \<open>Module constants of generate\_glove\_subset.py\<close>

definition GLOVE_URL :: string where
  "GLOVE_URL = ''https://nlp.stanford.edu/data/glove.6B.zip''"

definition GLOVE_ZIP :: string where
  "GLOVE_ZIP = ''glove.6B.zip''"

definition GLOVE_TXT :: string where
  "GLOVE_TXT = ''glove.6B.50d.txt''"

definition OUTPUT_FILE :: string where
  "OUTPUT_FILE = ''glove-50d-5k.json''"

definition VOCAB_SIZE :: int where
  "VOCAB_SIZE = 5000"

definition REQUIRED_WORDS :: "string set" where
  "REQUIRED_WORDS = set
    [''king'', ''queen'', ''man'', ''woman'', ''prince'', ''princess'',
     ''boy'', ''girl'', ''father'', ''mother'', ''son'', ''daughter'',
     ''brother'', ''sister'', ''husband'', ''wife'', ''uncle'', ''aunt'',
     ''grandfather'', ''grandmother'', ''lord'', ''lady'', ''duke'', ''duchess'',
     ''emperor'', ''empress'', ''sir'', ''madam'',
     ''he'', ''she'', ''him'', ''her'', ''his'', ''hers'', ''male'', ''female'',
     ''france'', ''paris'', ''germany'', ''berlin'', ''japan'', ''tokyo'',
     ''italy'', ''rome'', ''spain'', ''madrid'', ''china'', ''beijing'',
     ''russia'', ''moscow'', ''brazil'', ''india'', ''delhi'', ''canada'', ''ottawa'',
     ''doctor'', ''nurse'', ''engineer'', ''teacher'', ''programmer'', ''scientist'',
     ''lawyer'', ''pilot'', ''mechanic'', ''secretary'', ''professor'', ''surgeon'',
     ''accountant'', ''architect'', ''carpenter'', ''chef'', ''dentist'',
     ''electrician'', ''firefighter'', ''journalist'', ''librarian'', ''manager'',
     ''musician'', ''painter'', ''pharmacist'', ''plumber'', ''police'',
     ''receptionist'', ''soldier'', ''veterinarian'',
     ''cat'', ''dog'', ''horse'', ''bird'', ''fish'', ''lion'', ''tiger'', ''bear'',
     ''wolf'', ''eagle'', ''snake'', ''rabbit'',
     ''happy'', ''sad'', ''angry'', ''afraid'', ''surprised'', ''calm'', ''excited'',
     ''anxious'', ''proud'', ''love'', ''hate'', ''fear'', ''joy'',
     ''pizza'', ''sushi'', ''pasta'', ''rice'', ''bread'', ''cheese'',
     ''walking'', ''walked'', ''running'', ''ran'', ''swimming'', ''swam'',
     ''flying'', ''flew'',
     ''computer'', ''technology'', ''algorithm'', ''data'', ''intelligence'',
     ''artificial'', ''ethics'', ''bias'', ''fair'', ''unfair'', ''justice'',
     ''equality'', ''freedom'', ''privacy'', ''safety'', ''risk'']"

section \<open>Python strings: \<open>str.strip\<close> and \<open>str.split\<close>\<close>

text \<open>
  A Python string is modelled as a \<open>string\<close> whose characters are the code points below
  256. Among these, \<open>str.isspace\<close> holds of U+0009 to U+000D, U+001C to U+001F, U+0020,
  U+0085 and U+00A0; \<open>strip()\<close> and \<open>split()\<close> without arguments use this class.
\<close>

definition isspace :: "char \<Rightarrow> bool" where
  "isspace c \<longleftrightarrow>
     (let n = (of_char c :: nat)
      in (9 \<le> n \<and> n \<le> 13) \<or> (28 \<le> n \<and> n \<le> 32) \<or> n = 133 \<or> n = 160)"

definition strip :: "string \<Rightarrow> string" where
  "strip s = rev (dropWhile isspace (rev (dropWhile isspace s)))"

text \<open>
  \<open>split_from cur s\<close>: \<open>cur\<close> holds the characters of the token being read, last one
  first. A whitespace character closes a non-empty token; runs of whitespace produce no
  empty tokens.
\<close>

fun split_from :: "string \<Rightarrow> string \<Rightarrow> string list" where
  "split_from cur [] = (if cur = [] then [] else [rev cur])"
| "split_from cur (c # cs) =
     (if isspace c
      then (if cur = [] then split_from [] cs else rev cur # split_from [] cs)
      else split_from (c # cur) cs)"

definition split :: "string \<Rightarrow> string list" where
  "split s = split_from [] s"

section \<open>Python floats: \<open>float(x)\<close> and \<open>round(x, 6)\<close>\<close>

text \<open>
  An IEEE binary64 value: a finite value is its sign bit and its magnitude, a rational
  number that is a multiple of its binade's quantum (so the two zeros are distinct
  values).
\<close>

datatype float64 = Finite bool rat | Infinity bool | NaN

text \<open>\<open>bits n\<close> is the length of the binary numeral of a positive \<open>n\<close>.\<close>

function bits :: "int \<Rightarrow> int" where
  "bits n = (if n \<le> 0 then 0 else 1 + bits (n div 2))"
  by pat_completeness auto
termination
  by (relation "measure nat") auto

declare bits.simps [simp del]

text \<open>\<open>pow2 e\<close> is \<open>2 ^ e\<close> for an integer exponent.\<close>

definition pow2 :: "int \<Rightarrow> rat" where
  "pow2 e = (if 0 \<le> e then 2 ^ nat e else 1 / 2 ^ nat (- e))"

definition pow10 :: "int \<Rightarrow> rat" where
  "pow10 e = (if 0 \<le> e then 10 ^ nat e else 1 / 10 ^ nat (- e))"

text \<open>The binary exponent of a positive rational \<open>v\<close>: \<open>2 ^ e \<le> v < 2 ^ (e + 1)\<close>.\<close>

definition binexp :: "rat \<Rightarrow> int" where
  "binexp v = (if 1 \<le> v then bits \<lfloor>v\<rfloor> - 1 else - bits (\<lceil>1 / v\<rceil> - 1))"

text \<open>Rounding a non-negative rational to the nearest integer, ties to the even one.\<close>

definition round_half_even :: "rat \<Rightarrow> int" where
  "round_half_even v =
     (let f = \<lfloor>v\<rfloor>; r = v - of_int f
      in if r < 1 / 2 then f
         else if 1 / 2 < r then f + 1
         else if even f then f else f + 1)"

text \<open>
  The binary64 value nearest to the magnitude \<open>v\<close> (ties to even), with sign \<open>s\<close>:
  53 significant bits from \<open>2 ^ (- 1022)\<close> on, the fixed quantum \<open>2 ^ (- 1074)\<close>
  below, and infinity when the rounded magnitude reaches \<open>2 ^ 1024\<close>.
\<close>

definition to_double :: "bool \<Rightarrow> rat \<Rightarrow> float64" where
  "to_double s v =
     (if v = 0 then Finite s 0
      else
        let e = binexp v;
            q = pow2 ((if e < - 1022 then - 1022 else e) - 52);
            m = round_half_even (v / q);
            r = of_int m * q
        in if pow2 1024 \<le> r then Infinity s else Finite s r)"

definition is_digit :: "char \<Rightarrow> bool" where
  "is_digit c \<longleftrightarrow> (let n = (of_char c :: nat) in 48 \<le> n \<and> n \<le> 57)"

definition digit_val :: "char \<Rightarrow> int" where
  "digit_val c = of_char c - 48"

text \<open>The number a string of decimal digits denotes (0 for the empty string).\<close>

definition digits_val :: "string \<Rightarrow> int" where
  "digits_val ds = foldl (\<lambda>a c. 10 * a + digit_val c) 0 ds"

definition ascii_lower :: "char \<Rightarrow> char" where
  "ascii_lower c =
     (let n = (of_char c :: nat) in if 65 \<le> n \<and> n \<le> 90 then char_of (n + 32) else c)"

text \<open>
  An underscore is accepted only between two digits (PEP 515); \<open>prev\<close> is the character
  before the current one, if any.
\<close>

fun underscores_ok :: "char option \<Rightarrow> string \<Rightarrow> bool" where
  "underscores_ok prev [] = True"
| "underscores_ok prev (c # cs) =
     (if c = CHR ''_''
      then (case prev of
              None \<Rightarrow> False
            | Some p \<Rightarrow>
                is_digit p \<and> (case cs of [] \<Rightarrow> False | d # _ \<Rightarrow> is_digit d) \<and>
                underscores_ok (Some c) cs)
      else underscores_ok (Some c) cs)"

text \<open>An optional sign: the sign bit and the rest of the text.\<close>

definition take_sign :: "string \<Rightarrow> bool \<times> string" where
  "take_sign s =
     (case s of
        c # cs \<Rightarrow>
          if c = CHR ''-'' then (True, cs)
          else if c = CHR ''+'' then (False, cs)
          else (False, s)
      | [] \<Rightarrow> (False, s))"

text \<open>
  The exponent part: \<open>e\<close> or \<open>E\<close>, an optional sign and at least one digit. Without a
  digit nothing is consumed (and the text left over makes the literal invalid).
\<close>

definition take_exponent :: "string \<Rightarrow> int \<times> string" where
  "take_exponent s =
     (case s of
        c # cs \<Rightarrow>
          if c = CHR ''e'' \<or> c = CHR ''E''
          then (let (neg, r) = take_sign cs;
                    ds = takeWhile is_digit r
                in if ds = [] then (0, s)
                   else ((if neg then - digits_val ds else digits_val ds),
                         dropWhile is_digit r))
          else (0, s)
      | [] \<Rightarrow> (0, s))"

text \<open>
  A decimal literal without sign and without underscores: digits, an optional point,
  digits, an optional exponent; at least one digit before the exponent and nothing after
  the literal. The result is the exact value it denotes.
\<close>

definition decimal_value :: "string \<Rightarrow> rat option" where
  "decimal_value s =
     (let ip = takeWhile is_digit s;
          r1 = dropWhile is_digit s;
          (fp, r2) = (case r1 of
                        c # cs \<Rightarrow>
                          if c = CHR ''.''
                          then (takeWhile is_digit cs, dropWhile is_digit cs)
                          else ([], r1)
                      | [] \<Rightarrow> ([], r1))
      in if ip = [] \<and> fp = [] then None
         else
           let (ex, r3) = take_exponent r2
           in if r3 \<noteq> [] then None
              else Some (of_int (digits_val (ip @ fp)) * pow10 (ex - int (length fp))))"

text \<open>
  \<open>float(x)\<close> for a string without whitespace (a token of \<open>split\<close>): \<open>None\<close> is the
  ValueError. The literal is a signed decimal, or \<open>inf\<close>, \<open>infinity\<close> or \<open>nan\<close> in any
  letter case; a value too large becomes an infinity.
\<close>

definition py_float :: "string \<Rightarrow> float64 option" where
  "py_float s =
     (let (neg, r) = take_sign s;
          low = map ascii_lower r
      in if low = ''inf'' \<or> low = ''infinity'' then Some (Infinity neg)
         else if low = ''nan'' then Some NaN
         else if \<not> underscores_ok None s then None
         else map_option (to_double neg) (decimal_value (filter (\<lambda>c. c \<noteq> CHR ''_'') r)))"

text \<open>
  \<open>round(x, 6)\<close>: the decimal with six places nearest to the exact value of \<open>x\<close> (ties
  to the even one), converted back to binary64. Zeros, infinities and NaN are returned
  as they are.
\<close>

definition py_round6 :: "float64 \<Rightarrow> float64" where
  "py_round6 x =
     (case x of
        Finite s v \<Rightarrow>
          if v = 0 then x
          else to_double s (of_int (round_half_even (v * 10 ^ 6)) / 10 ^ 6)
      | _ \<Rightarrow> x)"

section \<open>Extraction: \<open>generate_subset\<close>\<close>

datatype py_error =
    IndexError
  | ValueError
  | FileNotFoundError
  | URLError
  | BadZipFile
  | KeyError

text \<open>\<open>parts = line.strip().split()\<close>\<close>

definition parts :: "string \<Rightarrow> string list" where
  "parts line = split (strip line)"

text \<open>What the function prints (the file size of the last message is left out).\<close>

datatype message =
    Reading
  | Processed int nat
  | Total nat
  | MissingRequired "string set"
  | AllRequiredFound
  | Writing
  | Wrote

text \<open>
  The dictionary \<open>embeddings\<close> keeps insertion order: assigning to a key that is present
  replaces its value in place, a new key goes to the end (\<open>AList.update\<close>).
\<close>

type_synonym 'f table = "(string \<times> 'f list) list"

record 'f loop_state =
  embeddings :: "'f table"
  line_count :: int
  printed :: "message list"

text \<open>
  The list comprehension \<open>[round(float(x), 6) for x in parts[1:]]\<close>, with the builtins
  \<open>float\<close> (\<open>None\<close>: ValueError) and \<open>round(_, 6)\<close> as parameters: the first token that
  is not a number raises.
\<close>

fun parse_vec :: "(string \<Rightarrow> 'f option) \<Rightarrow> ('f \<Rightarrow> 'f) \<Rightarrow> string list \<Rightarrow> py_error + 'f list" where
  "parse_vec flt rnd [] = Inr []"
| "parse_vec flt rnd (x # xs) =
     (case flt x of
        None \<Rightarrow> Inl ValueError
      | Some v \<Rightarrow>
          (case parse_vec flt rnd xs of
             Inl e \<Rightarrow> Inl e
           | Inr vs \<Rightarrow> Inr (rnd v # vs)))"

text \<open>
  One iteration of the loop over the lines, with the threshold \<open>K\<close> (VOCAB\_SIZE) and the
  set \<open>R\<close> (REQUIRED\_WORDS) read from the module.
\<close>

definition process_line ::
  "(string \<Rightarrow> 'f option) \<Rightarrow> ('f \<Rightarrow> 'f) \<Rightarrow> int \<Rightarrow> string set \<Rightarrow>
   'f loop_state \<Rightarrow> string \<Rightarrow> py_error + 'f loop_state" where
  "process_line flt rnd K R st line =
     (case parts line of
        [] \<Rightarrow> Inl IndexError
      | word # rest \<Rightarrow>
          (case (if line_count st < K \<or> word \<in> R
                 then (case parse_vec flt rnd rest of
                         Inl e \<Rightarrow> Inl e
                       | Inr vec \<Rightarrow>
                           Inr (if length vec = 50
                                then AList.update word vec (embeddings st)
                                else embeddings st))
                 else Inr (embeddings st)) of
             Inl e \<Rightarrow> Inl e
           | Inr emb \<Rightarrow>
               (let n = line_count st + 1
                in Inr \<lparr>embeddings = emb, line_count = n,
                        printed = (if n mod 50000 = 0
                                   then printed st @ [Processed n (length emb)]
                                   else printed st)\<rparr>)))"

fun run_lines ::
  "(string \<Rightarrow> 'f option) \<Rightarrow> ('f \<Rightarrow> 'f) \<Rightarrow> int \<Rightarrow> string set \<Rightarrow>
   'f loop_state \<Rightarrow> string list \<Rightarrow> py_error + 'f loop_state" where
  "run_lines flt rnd K R st [] = Inr st"
| "run_lines flt rnd K R st (l # ls) =
     (case process_line flt rnd K R st l of
        Inl e \<Rightarrow> Inl e
      | Inr st' \<Rightarrow> run_lines flt rnd K R st' ls)"

text \<open>
  The result of a run that returns: what was printed, the set reported as missing, and
  the dictionary handed to \<open>json.dump\<close> for OUTPUT\_FILE.
\<close>

record 'f outcome =
  stdout :: "message list"
  missing :: "string set"
  written :: "'f table"

text \<open>
  \<open>generate_subset\<close> on a file system that maps a path to the lines of the text file
  there: opening GLOVE\_TXT fails when it is absent.
\<close>

definition generate_subset_with ::
  "(string \<Rightarrow> 'f option) \<Rightarrow> ('f \<Rightarrow> 'f) \<Rightarrow> int \<Rightarrow> string set \<Rightarrow>
   (string \<rightharpoonup> string list) \<Rightarrow> py_error + 'f outcome" where
  "generate_subset_with flt rnd K R fs =
     (case fs GLOVE_TXT of
        None \<Rightarrow> Inl FileNotFoundError
      | Some lines \<Rightarrow>
          (case run_lines flt rnd K R
                  \<lparr>embeddings = [], line_count = 0, printed = [Reading]\<rparr> lines of
             Inl e \<Rightarrow> Inl e
           | Inr st \<Rightarrow>
               (let miss = R - set (map fst (embeddings st))
                in Inr \<lparr>stdout = printed st @
                          [Total (length (embeddings st)),
                           (if miss \<noteq> {} then MissingRequired miss else AllRequiredFound),
                           Writing, Wrote],
                        missing = miss,
                        written = embeddings st\<rparr>)))"

definition generate_subset :: "(string \<rightharpoonup> string list) \<Rightarrow> py_error + float64 outcome" where
  "generate_subset fs = generate_subset_with py_float py_round6 VOCAB_SIZE REQUIRED_WORDS fs"

section \<open>The output file: \<open>json.dump\<close> and reading it back\<close>


















section \<open>Acquisition: \<open>download_glove\<close>\<close>

text \<open>
  What a path of the working directory holds: a text file (its lines), a zip archive
  (its members) or bytes that are no archive, such as a download cut short.
\<close>

datatype disk_file =
    TextFile "string list"
  | ZipArchive "(string \<times> string list) list"
  | Damaged

text \<open>
  What \<open>urllib.request.urlretrieve\<close> does with a URL: it raises, leaving nothing or a
  partial file at the target path, or it stores the file it received there.
\<close>

datatype fetch = FetchFailed "disk_file option" | Fetched disk_file

datatype notice =
    AlreadyExists
  | Downloading
  | DownloadComplete
  | Extracting
  | Extracted

text \<open>
  The world \<open>download_glove\<close> acts on: the files of the working directory, the number
  of times the network was used, and what was printed (the progress lines of the
  report hook are left out).
\<close>

record world =
  files :: "string \<rightharpoonup> disk_file"
  fetches :: nat
  console :: "notice list"

definition say :: "notice \<Rightarrow> world \<Rightarrow> world" where
  "say n w = w\<lparr>console := console w @ [n]\<rparr>"

definition path_exists :: "world \<Rightarrow> string \<Rightarrow> bool" where
  "path_exists w p \<longleftrightarrow> files w p \<noteq> None"

text \<open>\<open>urlretrieve(url, filename, reporthook)\<close> against a network \<open>net\<close>.\<close>

definition urlretrieve ::
  "(string \<Rightarrow> fetch) \<Rightarrow> string \<Rightarrow> string \<Rightarrow> world \<Rightarrow> (py_error + unit) \<times> world" where
  "urlretrieve net url filename w =
     (let w' = w\<lparr>fetches := Suc (fetches w)\<rparr>
      in case net url of
           FetchFailed None \<Rightarrow> (Inl URLError, w')
         | FetchFailed (Some partial) \<Rightarrow>
             (Inl URLError, w'\<lparr>files := (files w')(filename \<mapsto> partial)\<rparr>)
         | Fetched f \<Rightarrow> (Inr (), w'\<lparr>files := (files w')(filename \<mapsto> f)\<rparr>))"

text \<open>
  \<open>with zipfile.ZipFile(archive, 'r') as zf: zf.extract(member, '.')\<close>: the archive has
  to be a zip file and to hold the member, which is then written beside it.
\<close>

definition zip_extract :: "string \<Rightarrow> string \<Rightarrow> world \<Rightarrow> (py_error + unit) \<times> world" where
  "zip_extract archive member w =
     (case files w archive of
        None \<Rightarrow> (Inl FileNotFoundError, w)
      | Some (ZipArchive members) \<Rightarrow>
          (case map_of members member of
             None \<Rightarrow> (Inl KeyError, w)
           | Some ls \<Rightarrow> (Inr (), w\<lparr>files := (files w)(member \<mapsto> TextFile ls)\<rparr>))
      | Some _ \<Rightarrow> (Inl BadZipFile, w))"

definition download_glove :: "(string \<Rightarrow> fetch) \<Rightarrow> world \<Rightarrow> (py_error + unit) \<times> world" where
  "download_glove net w =
     (if path_exists w GLOVE_TXT then (Inr (), say AlreadyExists w)
      else
        (case (if \<not> path_exists w GLOVE_ZIP
               then (case urlretrieve net GLOVE_URL GLOVE_ZIP (say Downloading w) of
                       (Inl e, w1) \<Rightarrow> (Inl e, w1)
                     | (Inr u, w1) \<Rightarrow> (Inr u, say DownloadComplete w1))
               else (Inr (), w)) of
           (Inl e, w1) \<Rightarrow> (Inl e, w1)
         | (Inr _, w1) \<Rightarrow>
             (case zip_extract GLOVE_ZIP GLOVE_TXT (say Extracting w1) of
                (Inl e, w2) \<Rightarrow> (Inl e, w2)
              | (Inr u, w2) \<Rightarrow> (Inr u, say Extracted w2))))"

text \<open>Two calls in a row: the second one runs when the first one has returned.\<close>

definition download_glove_twice ::
  "(string \<Rightarrow> fetch) \<Rightarrow> (string \<Rightarrow> fetch) \<Rightarrow> world \<Rightarrow> (py_error + unit) \<times> world" where
  "download_glove_twice net net' w =
     (case download_glove net w of
        (Inl e, w1) \<Rightarrow> (Inl e, w1)
      | (Inr _, w1) \<Rightarrow> download_glove net' w1)"

section \<open>The properties, in the words of the specification\<close>

text \<open>
  The words the loop inserts: the word of every line that is kept (its zero-based
  position is below \<open>K\<close>, or its word is in \<open>R\<close>) and has exactly 50 tokens after the
  word.
\<close>

definition inserted_words :: "int \<Rightarrow> string set \<Rightarrow> string list \<Rightarrow> string set" where
  "inserted_words K R lines =
     {w. \<exists>i < length lines. \<exists>toks.
           parts (lines ! i) = w # toks \<and> (int i < K \<or> w \<in> R) \<and> length toks = 50}"

text \<open>The words of the first \<open>K\<close> lines, by position.\<close>

definition first_words :: "int \<Rightarrow> string list \<Rightarrow> string set" where
  "first_words K lines =
     {w. \<exists>i < length lines. \<exists>toks. int i < K \<and> parts (lines ! i) = w # toks}"

text \<open>The required words that are the word of some line of the file.\<close>

definition required_present :: "string set \<Rightarrow> string list \<Rightarrow> string set" where
  "required_present R lines =
     {w. w \<in> R \<and> (\<exists>i < length lines. \<exists>toks. parts (lines ! i) = w # toks)}"

section \<open>Sample inputs\<close>

text \<open>A line with a required word and 50 components, as the GloVe file has them.\<close>

definition king_line :: string where
  "king_line = ''king'' @ concat (replicate 50 '' 0.5'')"

text \<open>The same for a word that is not required.\<close>

definition the_line :: string where
  "the_line = ''the'' @ concat (replicate 50 '' 0.5'')"

definition of_line :: string where
  "of_line = ''of'' @ concat (replicate 50 '' 0.5'')"

definition zebra_line :: string where
  "zebra_line = ''zebra'' @ concat (replicate 50 '' 0.5'')"

text \<open>A line with one component only, and a line whose component is no number.\<close>

definition short_line :: string where
  "short_line = ''the 0.5''"

definition bad_line :: string where
  "bad_line = ''the 0.5 abc''"

text \<open>A blank line of the file: the newline alone.\<close>

definition blank_line :: string where
  "blank_line = [CHR 0x0A]"

text \<open>
  A working directory with no files, and a network that delivers an archive holding the
  text file.
\<close>

definition empty_world :: world where
  "empty_world = \<lparr>files = Map.empty, fetches = 0, console = []\<rparr>"

definition sample_net :: "string \<Rightarrow> fetch" where
  "sample_net url =
     (if url = GLOVE_URL then Fetched (ZipArchive [(GLOVE_TXT, [the_line, king_line])])
      else FetchFailed None)"

text \<open>A network that is down.\<close>

definition no_net :: "string \<Rightarrow> fetch" where
  "no_net url = FetchFailed None"

text \<open>The state of the loop before the first line.\<close>

definition initial_state :: "'f loop_state" where
  "initial_state = \<lparr>embeddings = [], line_count = 0, printed = [Reading]\<rparr>"

section \<open>Lines and tokens\<close>

lemma split_from_blank: "\<forall>c \<in> set s. isspace c \<Longrightarrow> split_from [] s = []"
  by (induction s) auto

lemma strip_blank:
  assumes "\<forall>c \<in> set s. isspace c"
  shows "strip s = []"
  using assms by (auto simp: strip_def dest: set_dropWhileD)

lemma parts_blank: "\<forall>c \<in> set line. isspace c \<Longrightarrow> parts line = []"
  by (simp add: parts_def split_def strip_blank)

lemma parse_vec_Inr:
  "parse_vec flt rnd toks = Inr vec \<Longrightarrow>
     (\<forall>t \<in> set toks. flt t \<noteq> None) \<and> vec = map (\<lambda>t. rnd (the (flt t))) toks"
  by (induction toks arbitrary: vec) (auto split: option.splits sum.splits)

lemma parse_vec_numeric:
  "\<forall>t \<in> set toks. flt t \<noteq> None \<Longrightarrow>
     parse_vec flt rnd toks = Inr (map (\<lambda>t. rnd (the (flt t))) toks)"
  by (induction toks) auto

lemma parse_vec_Inl:
  "parse_vec flt rnd toks = Inl e \<Longrightarrow> e = ValueError \<and> (\<exists>t \<in> set toks. flt t = None)"
  by (induction toks) (auto split: option.splits sum.splits)

lemma parse_vec_bad:
  "\<exists>t \<in> set toks. flt t = None \<Longrightarrow> parse_vec flt rnd toks = Inl ValueError"
proof (induction toks)
  case Nil
  then show ?case by simp
next
  case (Cons a toks)
  show ?case
  proof (cases "flt a")
    case None
    then show ?thesis by simp
  next
    case (Some v)
    with Cons.prems have "\<exists>t \<in> set toks. flt t = None" by auto
    then have "parse_vec flt rnd toks = Inl ValueError" by (rule Cons.IH)
    with Some show ?thesis by simp
  qed
qed

lemma parse_vec_length: "parse_vec flt rnd toks = Inr vec \<Longrightarrow> length vec = length toks"
  by (drule parse_vec_Inr) simp

lemma process_line_blank:
  "parts line = [] \<Longrightarrow> process_line flt rnd K R st line = Inl IndexError"
  by (simp add: process_line_def)

lemma process_line_skipped:
  "parts line = w # toks \<Longrightarrow> \<not> (line_count st < K \<or> w \<in> R) \<Longrightarrow>
     process_line flt rnd K R st line =
       Inr \<lparr>embeddings = embeddings st, line_count = line_count st + 1,
            printed = (if (line_count st + 1) mod 50000 = 0
                       then printed st @ [Processed (line_count st + 1) (length (embeddings st))]
                       else printed st)\<rparr>"
  by (simp add: process_line_def Let_def)

lemma process_line_raises:
  "parts line = w # toks \<Longrightarrow> line_count st < K \<or> w \<in> R \<Longrightarrow>
     \<exists>t \<in> set toks. flt t = None \<Longrightarrow>
     process_line flt rnd K R st line = Inl ValueError"
  by (simp add: process_line_def parse_vec_bad)

lemma process_line_dropped:
  "parts line = w # toks \<Longrightarrow> line_count st < K \<or> w \<in> R \<Longrightarrow>
     \<forall>t \<in> set toks. flt t \<noteq> None \<Longrightarrow> length toks \<noteq> 50 \<Longrightarrow>
     process_line flt rnd K R st line =
       Inr \<lparr>embeddings = embeddings st, line_count = line_count st + 1,
            printed = (if (line_count st + 1) mod 50000 = 0
                       then printed st @ [Processed (line_count st + 1) (length (embeddings st))]
                       else printed st)\<rparr>"
  by (simp add: process_line_def Let_def parse_vec_numeric)

lemma process_line_inserted:
  "parts line = w # toks \<Longrightarrow> line_count st < K \<or> w \<in> R \<Longrightarrow>
     \<forall>t \<in> set toks. flt t \<noteq> None \<Longrightarrow> length toks = 50 \<Longrightarrow>
     process_line flt rnd K R st line =
       Inr \<lparr>embeddings = AList.update w (map (\<lambda>t. rnd (the (flt t))) toks) (embeddings st),
            line_count = line_count st + 1,
            printed = (if (line_count st + 1) mod 50000 = 0
                       then printed st @
                            [Processed (line_count st + 1)
                               (length (AList.update w (map (\<lambda>t. rnd (the (flt t))) toks)
                                          (embeddings st)))]
                       else printed st)\<rparr>"
  by (simp add: process_line_def Let_def parse_vec_numeric)

text \<open>What a successful iteration did, by cases.\<close>

lemma process_line_Inr:
  assumes "process_line flt rnd K R st line = Inr st'"
  obtains w toks where "parts line = w # toks"
    and "line_count st' = line_count st + 1"
    and "line_count st < K \<or> w \<in> R \<longrightarrow> (\<forall>t \<in> set toks. flt t \<noteq> None)"
    and "embeddings st' =
           (if (line_count st < K \<or> w \<in> R) \<and> length toks = 50
            then AList.update w (map (\<lambda>t. rnd (the (flt t))) toks) (embeddings st)
            else embeddings st)"
proof (cases "parts line")
  case Nil
  with assms show ?thesis by (simp add: process_line_def)
next
  case (Cons w toks)
  show ?thesis
  proof (cases "line_count st < K \<or> w \<in> R")
    case False
    with Cons assms that [of w toks] show ?thesis
      by (auto simp: process_line_skipped)
  next
    case True
    show ?thesis
    proof (cases "parse_vec flt rnd toks")
      case (Inl e)
      with Cons True assms show ?thesis by (simp add: process_line_def)
    next
      case (Inr vec)
      from parse_vec_Inr [OF Inr]
      have num: "\<forall>t \<in> set toks. flt t \<noteq> None"
        and vec: "vec = map (\<lambda>t. rnd (the (flt t))) toks" by simp_all
      show ?thesis
      proof (cases "length toks = 50")
        case True
        with Cons \<open>line_count st < K \<or> w \<in> R\<close> num assms that [of w toks] show ?thesis
          by (auto simp: process_line_inserted)
      next
        case False
        with Cons \<open>line_count st < K \<or> w \<in> R\<close> num assms that [of w toks] show ?thesis
          by (auto simp: process_line_dropped)
      qed
    qed
  qed
qed

section \<open>The loop over the lines\<close>


lemma run_lines_append:
  "run_lines flt rnd K R st (xs @ ys) =
     (case run_lines flt rnd K R st xs of
        Inl e \<Rightarrow> Inl e
      | Inr st' \<Rightarrow> run_lines flt rnd K R st' ys)"
  by (induction xs arbitrary: st) (auto split: sum.splits)


lemma inserted_words_Nil: "inserted_words K R [] = {}"
  by (simp add: inserted_words_def)

lemma inserted_words_Cons:
  assumes "parts l = w # toks"
  shows "inserted_words K R (l # ls) =
           (if (0 < K \<or> w \<in> R) \<and> length toks = 50 then {w} else {}) \<union>
           inserted_words (K - 1) R ls"
proof -
  have shift: "\<And>j. int (Suc j) < K \<longleftrightarrow> int j < K - 1" by auto
  show ?thesis
    using assms by (auto simp: inserted_words_def Ex_less_Suc2 shift)
qed

lemma run_lines_keys:
  "run_lines flt rnd K R st ls = Inr st' \<Longrightarrow>
     fst ` set (embeddings st') =
       fst ` set (embeddings st) \<union> inserted_words (K - line_count st) R ls"
proof (induction ls arbitrary: st)
  case Nil
  then show ?case by (simp add: inserted_words_Nil)
next
  case (Cons l ls)
  then obtain st1 where s1: "process_line flt rnd K R st l = Inr st1"
    and r: "run_lines flt rnd K R st1 ls = Inr st'"
    by (auto split: sum.splits)
  from s1 obtain w toks where p: "parts l = w # toks"
    and c: "line_count st1 = line_count st + 1"
    and e: "embeddings st1 =
           (if (line_count st < K \<or> w \<in> R) \<and> length toks = 50
            then AList.update w (map (\<lambda>t. rnd (the (flt t))) toks) (embeddings st)
            else embeddings st)"
    by (rule process_line_Inr)
  have k1: "fst ` set (embeddings st1) =
        fst ` set (embeddings st) \<union>
        (if (0 < K - line_count st \<or> w \<in> R) \<and> length toks = 50 then {w} else {})"
    by (auto simp: e dom_update)
  have "K - line_count st1 = K - line_count st - 1" using c by simp
  with Cons.IH [OF r] k1 show ?case
    by (simp add: inserted_words_Cons [OF p] Un_assoc)
qed

lemma run_lines_distinct:
  "run_lines flt rnd K R st ls = Inr st' \<Longrightarrow> distinct (map fst (embeddings st)) \<Longrightarrow>
     distinct (map fst (embeddings st'))"
proof (induction ls arbitrary: st)
  case Nil
  then show ?case by simp
next
  case (Cons l ls)
  then obtain st1 where s1: "process_line flt rnd K R st l = Inr st1"
    and r: "run_lines flt rnd K R st1 ls = Inr st'"
    by (auto split: sum.splits)
  from s1 obtain w toks where
    "embeddings st1 =
           (if (line_count st < K \<or> w \<in> R) \<and> length toks = 50
            then AList.update w (map (\<lambda>t. rnd (the (flt t))) toks) (embeddings st)
            else embeddings st)"
    by (rule process_line_Inr)
  with Cons.prems(2) have "distinct (map fst (embeddings st1))"
    by (simp add: distinct_update)
  with Cons.IH [OF r] show ?case .
qed

lemma set_update_cases:
  "p \<in> set (AList.update k v al) \<Longrightarrow> p = (k, v) \<or> p \<in> set al"
  by (induction al) (auto split: if_splits)

lemma run_lines_values:
  "run_lines flt rnd K R st ls = Inr st' \<Longrightarrow>
     \<forall>p \<in> set (embeddings st). length (snd p) = 50 \<Longrightarrow>
     \<forall>p \<in> set (embeddings st'). length (snd p) = 50"
proof (induction ls arbitrary: st)
  case Nil
  then show ?case by simp
next
  case (Cons l ls)
  then obtain st1 where s1: "process_line flt rnd K R st l = Inr st1"
    and r: "run_lines flt rnd K R st1 ls = Inr st'"
    by (auto split: sum.splits)
  from s1 obtain w toks where
    "embeddings st1 =
           (if (line_count st < K \<or> w \<in> R) \<and> length toks = 50
            then AList.update w (map (\<lambda>t. rnd (the (flt t))) toks) (embeddings st)
            else embeddings st)"
    by (rule process_line_Inr)
  with Cons.prems(2) have "\<forall>p \<in> set (embeddings st1). length (snd p) = 50"
    by (auto dest!: set_update_cases)
  with Cons.IH [OF r] show ?case .
qed

text \<open>Where every stored vector comes from: the tokens of a line of the file.\<close>

lemma run_lines_origin:
  "run_lines flt rnd K R st ls = Inr st' \<Longrightarrow> p \<in> set (embeddings st') \<Longrightarrow>
     p \<in> set (embeddings st) \<or>
     (\<exists>l \<in> set ls. \<exists>toks. parts l = fst p # toks \<and> (\<forall>t \<in> set toks. flt t \<noteq> None) \<and>
         snd p = map (\<lambda>t. rnd (the (flt t))) toks)"
proof (induction ls arbitrary: st)
  case Nil
  then show ?case by simp
next
  case (Cons l ls)
  then obtain st1 where s1: "process_line flt rnd K R st l = Inr st1"
    and r: "run_lines flt rnd K R st1 ls = Inr st'"
    by (auto split: sum.splits)
  from s1 obtain w toks where pl: "parts l = w # toks"
    and num: "line_count st < K \<or> w \<in> R \<longrightarrow> (\<forall>t \<in> set toks. flt t \<noteq> None)"
    and e: "embeddings st1 =
           (if (line_count st < K \<or> w \<in> R) \<and> length toks = 50
            then AList.update w (map (\<lambda>t. rnd (the (flt t))) toks) (embeddings st)
            else embeddings st)"
    by (rule process_line_Inr)
  from Cons.IH [OF r Cons.prems(2)] show ?case
  proof
    assume "p \<in> set (embeddings st1)"
    then have "p \<in> set (embeddings st) \<or>
        (p = (w, map (\<lambda>t. rnd (the (flt t))) toks) \<and> (line_count st < K \<or> w \<in> R))"
      by (auto simp: e dest!: set_update_cases split: if_splits)
    then show ?thesis
    proof
      assume "p \<in> set (embeddings st)"
      then show ?thesis by simp
    next
      assume a: "p = (w, map (\<lambda>t. rnd (the (flt t))) toks) \<and> (line_count st < K \<or> w \<in> R)"
      with num have "\<forall>t \<in> set toks. flt t \<noteq> None" by blast
      with a pl show ?thesis by auto
    qed
  next
    assume "\<exists>l \<in> set ls. \<exists>toks. parts l = fst p # toks \<and> (\<forall>t \<in> set toks. flt t \<noteq> None) \<and>
         snd p = map (\<lambda>t. rnd (the (flt t))) toks"
    then show ?thesis by auto
  qed
qed

text \<open>
  Lines that are kept, numeric and of the wrong dimension leave the dictionary as it is,
  however many there are.
\<close>

lemma run_lines_all_dropped:
  assumes "\<forall>l \<in> set ls. \<exists>w toks. parts l = w # toks \<and> (\<forall>t \<in> set toks. flt t \<noteq> None) \<and>
              length toks \<noteq> 50"
    and "line_count st + int (length ls) \<le> K"
    and "line_count st + int (length ls) < 50000" and "0 \<le> line_count st"
  shows "run_lines flt rnd K R st ls =
           Inr (st\<lparr>line_count := line_count st + int (length ls)\<rparr>)"
  using assms
proof (induction ls arbitrary: st)
  case Nil
  then show ?case by simp
next
  case (Cons l ls)
  from Cons.prems(1) obtain w toks where p: "parts l = w # toks"
    and n: "\<forall>t \<in> set toks. flt t \<noteq> None" and d: "length toks \<noteq> 50"
    by auto
  from Cons.prems(2) have k: "line_count st < K \<or> w \<in> R" by simp
  from Cons.prems(3,4) have m: "(line_count st + 1) mod 50000 \<noteq> 0" by simp
  let ?st1 = "st\<lparr>line_count := line_count st + 1\<rparr>"
  have s1: "process_line flt rnd K R st l = Inr ?st1"
    using m by (simp add: process_line_dropped [OF p k n d])
  have "run_lines flt rnd K R ?st1 ls =
          Inr (?st1\<lparr>line_count := line_count ?st1 + int (length ls)\<rparr>)"
    using Cons.prems by (intro Cons.IH) auto
  with s1 show ?case by (simp add: add.assoc)
qed

lemma generate_subset_with_Inr:
  assumes "generate_subset_with flt rnd K R fs = Inr out"
  obtains ls st where "fs GLOVE_TXT = Some ls"
    and "run_lines flt rnd K R initial_state ls = Inr st"
    and "written out = embeddings st"
    and "missing out = R - set (map fst (embeddings st))"
  using assms
  by (auto simp: generate_subset_with_def initial_state_def Let_def
      split: option.splits sum.splits)

lemma run_lines_returns:
  assumes "\<forall>l \<in> set ls. \<exists>w toks. parts l = w # toks \<and> (\<forall>t \<in> set toks. flt t \<noteq> None)"
  shows "\<exists>st'. run_lines flt rnd K R st ls = Inr st'"
  using assms
proof (induction ls arbitrary: st)
  case Nil
  then show ?case by simp
next
  case (Cons l ls)
  from Cons.prems obtain w toks where p: "parts l = w # toks"
    and n: "\<forall>t \<in> set toks. flt t \<noteq> None"
    by auto
  have "\<exists>st1. process_line flt rnd K R st l = Inr st1"
    using p n by (simp add: process_line_def Let_def parse_vec_numeric)
  then obtain st1 where "process_line flt rnd K R st l = Inr st1" ..
  moreover from Cons.prems have "\<exists>st'. run_lines flt rnd K R st1 ls = Inr st'"
    by (intro Cons.IH) simp
  ultimately show ?case by simp
qed

lemma run_lines_blank:
  assumes "parts line = []"
  shows "\<exists>e. run_lines flt rnd K R st (pre @ line # post) = Inl e"
proof (cases "run_lines flt rnd K R st pre")
  case (Inl e)
  then show ?thesis by (simp add: run_lines_append)
next
  case (Inr st')
  with assms show ?thesis by (simp add: run_lines_append process_line_blank)
qed

section \<open>Evaluation of the model on the sample inputs\<close>

lemma floor_rat_numeral: "\<lfloor>numeral a / numeral b :: rat\<rfloor> = numeral a div numeral b"
  using floor_divide_of_int_eq [of "numeral a" "numeral b", where ?'a = rat] by simp

lemma ceiling_rat_numeral: "\<lceil>numeral a / numeral b :: rat\<rceil> = - (- numeral a div numeral b)"
  using ceiling_divide_eq_div [of "numeral a" "numeral b", where ?'a = rat] by simp

lemmas parse_eval = py_float_def take_sign_def decimal_value_def take_exponent_def is_digit_def
  digits_val_def digit_val_def pow10_def ascii_lower_def Let_def

lemmas round_eval = to_double_def binexp_def pow2_def round_half_even_def Let_def bits.simps
  floor_rat_numeral ceiling_rat_numeral

lemma py_float_half: "py_float ''0.5'' = Some (Finite False (1 / 2))"
  by (simp add: parse_eval round_eval)

lemma py_round6_half: "py_round6 (Finite False (1 / 2)) = Finite False (1 / 2)"
  by (simp add: py_round6_def round_eval)

lemma py_float_abc: "py_float ''abc'' = None"
  by (simp add: parse_eval)

lemma parts_king_line: "parts king_line = ''king'' # replicate 50 ''0.5''"
  unfolding king_line_def by code_simp

lemma parts_the_line: "parts the_line = ''the'' # replicate 50 ''0.5''"
  unfolding the_line_def by code_simp

lemma parts_of_line: "parts of_line = ''of'' # replicate 50 ''0.5''"
  unfolding of_line_def by code_simp

lemma parts_zebra_line: "parts zebra_line = ''zebra'' # replicate 50 ''0.5''"
  unfolding zebra_line_def by code_simp

lemma parts_short_line: "parts short_line = [''the'', ''0.5'']"
  unfolding short_line_def by code_simp

lemma parts_bad_line: "parts bad_line = [''the'', ''0.5'', ''abc'']"
  unfolding bad_line_def by code_simp

lemma parts_blank_line: "parts blank_line = []"
  unfolding blank_line_def by code_simp

lemma blank_line_isspace: "\<forall>c \<in> set blank_line. isspace c"
  by (simp add: blank_line_def isspace_def)

lemma king_required: "''king'' \<in> REQUIRED_WORDS"
  by (simp add: REQUIRED_WORDS_def)

lemma the_not_required: "''the'' \<notin> REQUIRED_WORDS"
  by (simp add: REQUIRED_WORDS_def)

lemma parse_vec_replicate:
  "flt t = Some v \<Longrightarrow> parse_vec flt rnd (replicate n t) = Inr (replicate n (rnd v))"
  by (induction n) simp_all

lemma parse_vec_halves:
  "parse_vec py_float py_round6 (replicate n ''0.5'') = Inr (replicate n (Finite False (1 / 2)))"
  using parse_vec_replicate [where flt = py_float and rnd = py_round6 and n = n,
      OF py_float_half]
  by (simp add: py_round6_half)

lemma halves_numeric: "\<forall>t \<in> set (replicate n ''0.5''). py_float t \<noteq> None"
  by (simp add: py_float_half)


lemma vec_halves:
  "map (\<lambda>t. py_round6 (the (py_float t))) (replicate n ''0.5'') =
     replicate n (Finite False (1 / 2))"
  by (simp add: py_float_half py_round6_half)

text \<open>The iterations on the sample lines, away from a progress message.\<close>

lemma process_king_line:
  "(line_count st + 1) mod 50000 \<noteq> 0 \<Longrightarrow>
     process_line py_float py_round6 VOCAB_SIZE REQUIRED_WORDS st king_line =
       Inr \<lparr>embeddings = AList.update ''king'' (replicate 50 (Finite False (1 / 2)))
                             (embeddings st),
            line_count = line_count st + 1, printed = printed st\<rparr>"
  by (simp add: process_line_def parts_king_line king_required parse_vec_halves)

lemma process_the_line:
  "(line_count st + 1) mod 50000 \<noteq> 0 \<Longrightarrow> line_count st < 5000 \<Longrightarrow>
     process_line py_float py_round6 VOCAB_SIZE REQUIRED_WORDS st the_line =
       Inr \<lparr>embeddings = AList.update ''the'' (replicate 50 (Finite False (1 / 2)))
                             (embeddings st),
            line_count = line_count st + 1, printed = printed st\<rparr>"
  by (simp add: process_line_def parts_the_line VOCAB_SIZE_def parse_vec_halves)

lemma process_short_line:
  "(line_count st + 1) mod 50000 \<noteq> 0 \<Longrightarrow>
     process_line py_float py_round6 VOCAB_SIZE REQUIRED_WORDS st short_line =
       Inr \<lparr>embeddings = embeddings st, line_count = line_count st + 1,
            printed = printed st\<rparr>"
  by (simp add: process_line_def parts_short_line py_float_half)

text \<open>
  The sample file: a frequent word, a required word and a line of the wrong dimension.
\<close>

lemma run_sample_file:
  "run_lines py_float py_round6 VOCAB_SIZE REQUIRED_WORDS initial_state
     [the_line, king_line, short_line] =
   Inr \<lparr>embeddings = [(''the'', replicate 50 (Finite False (1 / 2))),
                        (''king'', replicate 50 (Finite False (1 / 2)))],
        line_count = 3, printed = [Reading]\<rparr>"
  by (simp add: process_the_line process_king_line process_short_line initial_state_def)

section \<open>Properties of the extraction\<close>

text \<open>
  C10. A line that is empty or holds only whitespace makes \<open>generate_subset\<close> fail: its
  token list is empty and reading the word, \<open>parts[0]\<close>, raises IndexError, whatever the
  line count and the required words are, so whether or not the line would have been
  kept. The iteration raises IndexError; a run that reaches the line raises IndexError;
  and every run over a file with such a line ends in an error.
\<close>

theorem blank_line_raises:
  assumes "\<forall>c \<in> set line. isspace c"
  shows "process_line flt rnd K R st line = Inl IndexError \<and>
         (\<forall>st0 pre post. run_lines flt rnd K R st0 pre = Inr st \<longrightarrow>
            run_lines flt rnd K R st0 (pre @ line # post) = Inl IndexError) \<and>
         (\<forall>fs pre post. fs GLOVE_TXT = Some (pre @ line # post) \<longrightarrow>
            (\<exists>e. generate_subset_with flt rnd K R fs = Inl e))"
proof -
  from assms have p: "parts line = []" by (rule parts_blank)
  then have step: "process_line flt rnd K R st line = Inl IndexError"
    by (rule process_line_blank)
  have run: "run_lines flt rnd K R st0 (pre @ line # post) = Inl IndexError"
    if "run_lines flt rnd K R st0 pre = Inr st" for st0 pre post
    using that step by (simp add: run_lines_append)
  have whole: "\<exists>e. generate_subset_with flt rnd K R fs = Inl e"
    if "fs GLOVE_TXT = Some (pre @ line # post)" for fs pre post
  proof -
    from run_lines_blank [OF p, of flt rnd K R initial_state pre post]
    obtain e where "run_lines flt rnd K R initial_state (pre @ line # post) = Inl e" ..
    with that show ?thesis
      by (simp add: generate_subset_with_def initial_state_def)
  qed
  from step run whole show ?thesis by blast
qed

theorem blank_line_raises_witness:
  "list_all isspace blank_line \<and>
   process_line py_float py_round6 VOCAB_SIZE REQUIRED_WORDS initial_state blank_line =
     Inl IndexError \<and>
   run_lines py_float py_round6 VOCAB_SIZE REQUIRED_WORDS initial_state [blank_line, king_line] =
     Inl IndexError \<and>
   (\<exists>e. generate_subset [GLOVE_TXT \<mapsto> [king_line, blank_line]] = Inl e)"
proof -
  note w = blank_line_raises [OF blank_line_isspace,
      of py_float py_round6 VOCAB_SIZE REQUIRED_WORDS initial_state]
  from w have a: "process_line py_float py_round6 VOCAB_SIZE REQUIRED_WORDS initial_state
      blank_line = Inl IndexError" by blast
  from w have "run_lines py_float py_round6 VOCAB_SIZE REQUIRED_WORDS initial_state
      ([] @ blank_line # [king_line]) = Inl IndexError"
    by (intro w [THEN conjunct2, THEN conjunct1, rule_format]) simp
  then have b: "run_lines py_float py_round6 VOCAB_SIZE REQUIRED_WORDS initial_state
      [blank_line, king_line] = Inl IndexError" by simp
  have "[GLOVE_TXT \<mapsto> [king_line, blank_line]] GLOVE_TXT = Some ([king_line] @ blank_line # [])"
    by simp
  with w have c: "\<exists>e. generate_subset [GLOVE_TXT \<mapsto> [king_line, blank_line]] = Inl e"
    unfolding generate_subset_def by blast
  have "list_all isspace blank_line"
    using blank_line_isspace by (simp add: list_all_iff)
  with a b c show ?thesis by (intro conjI)
qed



text \<open>
  C3. The dimensionality guard: on a kept line whose tokens after the word are all
  numbers and are not exactly 50, the iteration returns (it does not raise), leaves the
  dictionary as it was, advances the cursor, and the loop goes on with the remaining
  lines.
\<close>

theorem dimensionality_guard:
  assumes "parts line = w # toks"
    and "line_count st < K \<or> w \<in> R"
    and "\<forall>t \<in> set toks. flt t \<noteq> None"
    and "length toks \<noteq> 50"
  shows "\<exists>st'. process_line flt rnd K R st line = Inr st' \<and>
           embeddings st' = embeddings st \<and>
           line_count st' = line_count st + 1 \<and>
           run_lines flt rnd K R st (line # rest) = run_lines flt rnd K R st' rest"
  using process_line_dropped [OF assms, of rnd] by simp

theorem dimensionality_guard_witness:
  "parts short_line = [''the'', ''0.5''] \<and>
   line_count (initial_state :: float64 loop_state) < VOCAB_SIZE \<and>
   py_float ''0.5'' \<noteq> None \<and>
   (\<exists>st'. process_line py_float py_round6 VOCAB_SIZE REQUIRED_WORDS initial_state short_line =
            Inr st' \<and>
          embeddings st' = embeddings (initial_state :: float64 loop_state) \<and>
          line_count st' = line_count (initial_state :: float64 loop_state) + 1 \<and>
          run_lines py_float py_round6 VOCAB_SIZE REQUIRED_WORDS initial_state
            (short_line # [king_line]) =
          run_lines py_float py_round6 VOCAB_SIZE REQUIRED_WORDS st' [king_line])"
proof -
  have k0: "line_count (initial_state :: float64 loop_state) < VOCAB_SIZE"
    by (simp add: initial_state_def VOCAB_SIZE_def)
  then have k: "line_count (initial_state :: float64 loop_state) < VOCAB_SIZE \<or>
      ''the'' \<in> REQUIRED_WORDS" ..
  have n0: "py_float ''0.5'' \<noteq> None"
    by (simp add: py_float_half)
  then have n: "\<forall>t \<in> set [''0.5'']. py_float t \<noteq> None"
    by simp
  have d: "length [''0.5''] \<noteq> 50" by simp
  note g = dimensionality_guard [OF parts_short_line k n d, of py_round6 "[king_line]"]
  from parts_short_line k0 n0 g show ?thesis by (intro conjI)
qed

text \<open>
  C8. A line that has a word and is not kept is skipped whatever its other tokens are
  (too few, too many, no numbers): the iteration returns, the dictionary is as before and
  the cursor advances. On a kept line a token that is no number raises ValueError, which
  ends the iteration, the loop and the run.
\<close>

theorem unkept_skipped_kept_raises:
  assumes "parts line = w # toks"
  shows "(\<not> (line_count st < K \<or> w \<in> R) \<longrightarrow>
            (\<exists>st'. process_line flt rnd K R st line = Inr st' \<and>
                   embeddings st' = embeddings st \<and>
                   line_count st' = line_count st + 1)) \<and>
         ((line_count st < K \<or> w \<in> R) \<and> (\<exists>t \<in> set toks. flt t = None) \<longrightarrow>
            process_line flt rnd K R st line = Inl ValueError \<and>
            (\<forall>st0 pre rest. run_lines flt rnd K R st0 pre = Inr st \<longrightarrow>
               run_lines flt rnd K R st0 (pre @ line # rest) = Inl ValueError) \<and>
            (\<forall>fs pre rest. fs GLOVE_TXT = Some (pre @ line # rest) \<longrightarrow>
               run_lines flt rnd K R initial_state pre = Inr st \<longrightarrow>
               generate_subset_with flt rnd K R fs = Inl ValueError))"
proof (intro conjI impI)
  assume "\<not> (line_count st < K \<or> w \<in> R)"
  with assms show "\<exists>st'. process_line flt rnd K R st line = Inr st' \<and>
      embeddings st' = embeddings st \<and> line_count st' = line_count st + 1"
    by (simp add: process_line_skipped)
next
  assume a: "(line_count st < K \<or> w \<in> R) \<and> (\<exists>t \<in> set toks. flt t = None)"
  with assms show step: "process_line flt rnd K R st line = Inl ValueError"
    by (simp add: process_line_raises)
  then show run: "\<forall>st0 pre rest. run_lines flt rnd K R st0 pre = Inr st \<longrightarrow>
      run_lines flt rnd K R st0 (pre @ line # rest) = Inl ValueError"
    by (simp add: run_lines_append)
  then show "\<forall>fs pre rest. fs GLOVE_TXT = Some (pre @ line # rest) \<longrightarrow>
      run_lines flt rnd K R initial_state pre = Inr st \<longrightarrow>
      generate_subset_with flt rnd K R fs = Inl ValueError"
    by (simp add: generate_subset_with_def initial_state_def)
qed

theorem unkept_skipped_kept_raises_witness:
  "parts bad_line = [''the'', ''0.5'', ''abc''] \<and>
   (\<exists>st'. process_line py_float py_round6 VOCAB_SIZE REQUIRED_WORDS
            (initial_state\<lparr>line_count := 5000\<rparr>) bad_line = Inr st' \<and>
          embeddings st' = [] \<and> line_count st' = 5001) \<and>
   process_line py_float py_round6 VOCAB_SIZE REQUIRED_WORDS initial_state bad_line =
     Inl ValueError \<and>
   run_lines py_float py_round6 VOCAB_SIZE REQUIRED_WORDS initial_state [bad_line, king_line] =
     Inl ValueError \<and>
   generate_subset [GLOVE_TXT \<mapsto> [bad_line, king_line]] = Inl ValueError"
proof -
  note w = unkept_skipped_kept_raises [OF parts_bad_line,
      of _ VOCAB_SIZE REQUIRED_WORDS py_float py_round6]
  note skip = w [THEN conjunct1, rule_format]
  note rais = w [THEN conjunct2, rule_format]
  have "\<exists>st'. process_line py_float py_round6 VOCAB_SIZE REQUIRED_WORDS
            (initial_state\<lparr>line_count := 5000\<rparr>) bad_line = Inr st' \<and>
          embeddings st' = embeddings (initial_state\<lparr>line_count := 5000\<rparr> :: float64 loop_state) \<and>
          line_count st' =
            line_count (initial_state\<lparr>line_count := 5000\<rparr> :: float64 loop_state) + 1"
    by (rule skip) (simp add: initial_state_def VOCAB_SIZE_def the_not_required)
  then have a: "\<exists>st'. process_line py_float py_round6 VOCAB_SIZE REQUIRED_WORDS
            (initial_state\<lparr>line_count := 5000\<rparr>) bad_line = Inr st' \<and>
          embeddings st' = [] \<and> line_count st' = 5001"
    by (simp add: initial_state_def)
  have k: "(line_count (initial_state :: float64 loop_state) < VOCAB_SIZE \<or>
        ''the'' \<in> REQUIRED_WORDS) \<and>
      (\<exists>t \<in> set [''0.5'', ''abc'']. py_float t = None)"
    by (simp add: initial_state_def VOCAB_SIZE_def py_float_abc)
  note r = rais [OF k]
  from r have b: "process_line py_float py_round6 VOCAB_SIZE REQUIRED_WORDS initial_state
      bad_line = Inl ValueError" by (rule conjunct1)
  have "run_lines py_float py_round6 VOCAB_SIZE REQUIRED_WORDS initial_state
      ([] @ bad_line # [king_line]) = Inl ValueError"
    by (rule r [THEN conjunct2, THEN conjunct1, rule_format]) simp
  then have c: "run_lines py_float py_round6 VOCAB_SIZE REQUIRED_WORDS initial_state
      [bad_line, king_line] = Inl ValueError" by simp
  have d: "generate_subset [GLOVE_TXT \<mapsto> [bad_line, king_line]] = Inl ValueError"
    unfolding generate_subset_def
    by (rule r [THEN conjunct2, THEN conjunct2, rule_format, of _ "[]" "[king_line]"])
      simp_all
  from parts_bad_line a b c d show ?thesis by (intro conjI)
qed

text \<open>
  As the claim has it, a malformed line that is not kept is skipped silently. A blank
  line after the first 5000 lines is no kept line and has the wrong number of tokens
  (none), and the run raises IndexError on it, while the run without it returns.
\<close>

theorem unkept_blank_line_counterexample:
  "parts blank_line = [] \<and>
   \<not> int (length (replicate 5000 the_line)) < VOCAB_SIZE \<and>
   generate_subset [GLOVE_TXT \<mapsto> replicate 5000 the_line @ [blank_line]] = Inl IndexError \<and>
   \<not> isl (generate_subset [GLOVE_TXT \<mapsto> replicate 5000 the_line])"
proof -
  have ok: "\<forall>l \<in> set (replicate 5000 the_line).
      \<exists>w toks. parts l = w # toks \<and> (\<forall>t \<in> set toks. py_float t \<noteq> None)"
    by (simp add: parts_the_line py_float_half)
  from run_lines_returns [OF ok, of py_round6 VOCAB_SIZE REQUIRED_WORDS initial_state]
  obtain st where st: "run_lines py_float py_round6 VOCAB_SIZE REQUIRED_WORDS initial_state
      (replicate 5000 the_line) = Inr st" ..
  have a: "generate_subset [GLOVE_TXT \<mapsto> replicate 5000 the_line @ [blank_line]] =
      Inl IndexError"
    using st
    by (simp add: generate_subset_def generate_subset_with_def initial_state_def
        run_lines_append process_line_blank parts_blank_line)
  have b: "\<not> isl (generate_subset [GLOVE_TXT \<mapsto> replicate 5000 the_line])"
    using st
    by (simp add: generate_subset_def generate_subset_with_def initial_state_def Let_def)
  have c: "\<not> int (length (replicate 5000 the_line)) < VOCAB_SIZE"
    by (simp add: VOCAB_SIZE_def)
  from parts_blank_line c a b show ?thesis by (intro conjI)
qed

text \<open>
  C4. When the loop has returned and some required word is no key of the dictionary,
  \<open>generate_subset\<close> still returns: it reports exactly the required words that are
  no keys, goes on to write, and hands the dictionary as it is to \<open>json.dump\<close>, so the
  file has none of the missing words.
\<close>

theorem missing_words_reported:
  assumes "fs GLOVE_TXT = Some lines"
    and "run_lines flt rnd K R initial_state lines = Inr st"
    and "\<exists>w \<in> R. w \<notin> fst ` set (embeddings st)"
  shows "\<exists>out. generate_subset_with flt rnd K R fs = Inr out \<and>
           missing out = R - fst ` set (embeddings st) \<and>
           written out = embeddings st \<and>
           stdout out = printed st @
             [Total (length (embeddings st)),
              MissingRequired (R - fst ` set (embeddings st)), Writing, Wrote] \<and>
           (\<forall>w \<in> missing out. w \<notin> fst ` set (written out))"
proof -
  from assms(3) have "R - fst ` set (embeddings st) \<noteq> {}" by auto
  with assms(1,2) show ?thesis
    by (simp add: generate_subset_with_def initial_state_def Let_def)
qed

theorem missing_words_reported_witness:
  "''queen'' \<in> REQUIRED_WORDS \<and>
   (\<exists>out. generate_subset [GLOVE_TXT \<mapsto> [the_line, king_line, short_line]] = Inr out \<and>
      missing out = REQUIRED_WORDS - {''the'', ''king''} \<and>
      map fst (written out) = [''the'', ''king''] \<and>
      stdout out = [Reading, Total 2, MissingRequired (REQUIRED_WORDS - {''the'', ''king''}),
                    Writing, Wrote] \<and>
      ''queen'' \<in> missing out)"
proof -
  let ?st = "\<lparr>embeddings = [(''the'', replicate 50 (Finite False (1 / 2))),
                        (''king'', replicate 50 (Finite False (1 / 2)))],
        line_count = 3, printed = [Reading]\<rparr>"
  let ?fs = "[GLOVE_TXT \<mapsto> [the_line, king_line, short_line]]"
  have q: "''queen'' \<in> REQUIRED_WORDS" by (simp add: REQUIRED_WORDS_def)
  have f: "?fs GLOVE_TXT = Some [the_line, king_line, short_line]" by simp
  have m: "\<exists>w \<in> REQUIRED_WORDS. w \<notin> fst ` set (embeddings ?st)"
    using q by (intro bexI [of _ "''queen''"]) simp_all
  from missing_words_reported [where fs = ?fs, OF f run_sample_file m]
  obtain out where o: "generate_subset_with py_float py_round6 VOCAB_SIZE REQUIRED_WORDS ?fs =
        Inr out"
    and mi: "missing out = REQUIRED_WORDS - fst ` set (embeddings ?st)"
    and wr: "written out = embeddings ?st"
    and so: "stdout out = printed ?st @
             [Total (length (embeddings ?st)),
              MissingRequired (REQUIRED_WORDS - fst ` set (embeddings ?st)), Writing, Wrote]"
    by blast
  have g: "generate_subset ?fs = Inr out"
    using o by (simp only: generate_subset_def)
  have k: "fst ` set (embeddings ?st) = {''the'', ''king''}" by simp
  have mi': "missing out = REQUIRED_WORDS - {''the'', ''king''}"
    using mi by (simp only: k)
  have wr': "map fst (written out) = [''the'', ''king'']"
    by (simp add: wr)
  have so': "stdout out =
      [Reading, Total 2, MissingRequired (REQUIRED_WORDS - {''the'', ''king''}), Writing, Wrote]"
    by (simp only: so k) simp
  have qm: "''queen'' \<in> missing out"
    using q by (simp add: mi')
  show ?thesis
    by (rule conjI [OF q], rule exI [of _ out]) (intro conjI g mi' wr' so' qm)
qed

lemma generate_subset_with_keys:
  assumes "fs GLOVE_TXT = Some lines" and "generate_subset_with flt rnd K R fs = Inr out"
  shows "fst ` set (written out) = inserted_words K R lines"
    and "distinct (map fst (written out))"
    and "\<forall>p \<in> set (written out). length (snd p) = 50"
proof -
  from assms(2) obtain ls st where "fs GLOVE_TXT = Some ls"
    and run: "run_lines flt rnd K R initial_state ls = Inr st"
    and wr: "written out = embeddings st"
    by (rule generate_subset_with_Inr)
  with assms(1) have ls: "ls = lines" by simp
  from run_lines_keys [OF run] show "fst ` set (written out) = inserted_words K R lines"
    by (simp add: wr ls initial_state_def)
  from run_lines_distinct [OF run] show "distinct (map fst (written out))"
    by (simp add: wr initial_state_def)
  from run_lines_values [OF run] show "\<forall>p \<in> set (written out). length (snd p) = 50"
    by (simp add: wr initial_state_def)
qed

lemma inserted_words_wellformed:
  assumes "\<forall>i < length lines. \<forall>w toks. parts (lines ! i) = w # toks \<longrightarrow>
             (int i < K \<or> w \<in> R) \<longrightarrow> length toks = 50"
  shows "inserted_words K R lines = first_words K lines \<union> required_present R lines"
  using assms
  unfolding inserted_words_def first_words_def required_present_def
  by blast

text \<open>A file whose lines all have the wrong dimension gives the empty dictionary.\<close>

lemma generate_subset_all_short:
  "\<exists>out. generate_subset [GLOVE_TXT \<mapsto> replicate n short_line] = Inr out \<and> written out = []"
proof -
  let ?fs = "[GLOVE_TXT \<mapsto> replicate n short_line]"
  have ok: "\<forall>l \<in> set (replicate n short_line).
      \<exists>w toks. parts l = w # toks \<and> (\<forall>t \<in> set toks. py_float t \<noteq> None)"
    by (simp add: parts_short_line py_float_half)
  from run_lines_returns [OF ok, of py_round6 VOCAB_SIZE REQUIRED_WORDS initial_state]
  obtain st where st: "run_lines py_float py_round6 VOCAB_SIZE REQUIRED_WORDS initial_state
      (replicate n short_line) = Inr st" ..
  then have "\<exists>out. generate_subset ?fs = Inr out"
    by (simp add: generate_subset_def generate_subset_with_def initial_state_def Let_def)
  then obtain out where out: "generate_subset ?fs = Inr out" ..
  have "inserted_words VOCAB_SIZE REQUIRED_WORDS (replicate n short_line) = {}"
    by (auto simp: inserted_words_def parts_short_line)
  with generate_subset_with_keys(1) [of ?fs "replicate n short_line" py_float py_round6
      VOCAB_SIZE REQUIRED_WORDS out] out
  have "fst ` set (written out) = {}"
    by (simp add: generate_subset_def)
  then have e: "written out = []" by simp
  show ?thesis by (rule exI [of _ out]) (rule conjI [OF out e])
qed

text \<open>A file that repeats one well-formed line gives a dictionary with one entry.\<close>

lemma generate_subset_all_the:
  assumes "0 < n"
  shows "\<exists>out. generate_subset [GLOVE_TXT \<mapsto> replicate n the_line] = Inr out \<and>
           map fst (written out) = [''the'']"
proof -
  let ?fs = "[GLOVE_TXT \<mapsto> replicate n the_line]"
  have ok: "\<forall>l \<in> set (replicate n the_line).
      \<exists>w toks. parts l = w # toks \<and> (\<forall>t \<in> set toks. py_float t \<noteq> None)"
    by (simp add: parts_the_line py_float_half)
  from run_lines_returns [OF ok, of py_round6 VOCAB_SIZE REQUIRED_WORDS initial_state]
  obtain st where st: "run_lines py_float py_round6 VOCAB_SIZE REQUIRED_WORDS initial_state
      (replicate n the_line) = Inr st" ..
  then have "\<exists>out. generate_subset ?fs = Inr out"
    by (simp add: generate_subset_def generate_subset_with_def initial_state_def Let_def)
  then obtain out where out: "generate_subset ?fs = Inr out" ..
  have "inserted_words VOCAB_SIZE REQUIRED_WORDS (replicate n the_line) = {''the''}"
    using assms
    by (auto simp: inserted_words_def parts_the_line VOCAB_SIZE_def intro!: exI [of _ 0])
  with generate_subset_with_keys(1,2) [of ?fs "replicate n the_line" py_float py_round6
      VOCAB_SIZE REQUIRED_WORDS out] out
  have k: "fst ` set (written out) = {''the''}" and d: "distinct (map fst (written out))"
    by (simp_all add: generate_subset_def)
  from distinct_card [OF d] k have "length (map fst (written out)) = 1" by simp
  moreover from k have "set (map fst (written out)) = {''the''}" by simp
  ultimately have m: "map fst (written out) = [''the'']"
    by (cases "map fst (written out)") auto
  show ?thesis by (rule exI [of _ out]) (rule conjI [OF out m])
qed

lemma run_lines_words:
  "run_lines flt rnd K R st ls = Inr st' \<Longrightarrow> \<forall>l \<in> set ls. parts l \<noteq> []"
proof (induction ls arbitrary: st)
  case Nil
  then show ?case by simp
next
  case (Cons l ls)
  then obtain st1 where s1: "process_line flt rnd K R st l = Inr st1"
    and r: "run_lines flt rnd K R st1 ls = Inr st'"
    by (auto split: sum.splits)
  from s1 obtain w toks where "parts l = w # toks"
    by (rule process_line_Inr)
  with Cons.IH [OF r] show ?case by simp
qed

text \<open>
  C1, as amended. When \<open>generate_subset\<close> returns, the keys of the dictionary it writes
  are exactly the words of the lines that are kept (zero-based position below \<open>K\<close>, or
  word in the required set) and have exactly 50 components, and no key occurs twice.
  When every kept line has exactly 50 components, these are the words of the first \<open>K\<close>
  lines together with the required words that occur in the file.
\<close>

theorem generate_subset_keys:
  assumes "fs GLOVE_TXT = Some lines" and "generate_subset_with flt rnd K R fs = Inr out"
  shows "fst ` set (written out) = inserted_words K R lines \<and>
         distinct (map fst (written out)) \<and>
         ((\<forall>i < length lines. \<forall>w toks. parts (lines ! i) = w # toks \<longrightarrow>
              (int i < K \<or> w \<in> R) \<longrightarrow> length toks = 50) \<longrightarrow>
          fst ` set (written out) = first_words K lines \<union> required_present R lines)"
proof (intro conjI impI)
  show k: "fst ` set (written out) = inserted_words K R lines"
    by (rule generate_subset_with_keys(1) [OF assms])
  show "distinct (map fst (written out))"
    by (rule generate_subset_with_keys(2) [OF assms])
  assume "\<forall>i < length lines. \<forall>w toks. parts (lines ! i) = w # toks \<longrightarrow>
              (int i < K \<or> w \<in> R) \<longrightarrow> length toks = 50"
  then have "inserted_words K R lines = first_words K lines \<union> required_present R lines"
    by (rule inserted_words_wellformed)
  with k show "fst ` set (written out) = first_words K lines \<union> required_present R lines"
    by simp
qed

text \<open>
  C2, as amended. When \<open>generate_subset\<close> returns on a file of at least \<open>K\<close> lines whose
  first \<open>K\<close> lines have exactly 50 components each and pairwise different words, the
  dictionary it writes has at least \<open>K\<close> entries.
\<close>

theorem subset_size_lower_bound:
  assumes "fs GLOVE_TXT = Some lines" and "generate_subset_with flt rnd K R fs = Inr out"
    and "K \<le> int (length lines)"
    and "\<forall>i < length lines. int i < K \<longrightarrow>
           (\<forall>w toks. parts (lines ! i) = w # toks \<longrightarrow> length toks = 50)"
    and "\<forall>i < length lines. \<forall>j < length lines. int i < K \<longrightarrow> int j < K \<longrightarrow>
           (\<forall>w toks toks'. parts (lines ! i) = w # toks \<longrightarrow> parts (lines ! j) = w # toks' \<longrightarrow>
              i = j)"
  shows "K \<le> int (length (written out))"
proof -
  from assms(2) obtain ls st where "fs GLOVE_TXT = Some ls"
    and run: "run_lines flt rnd K R initial_state ls = Inr st"
    by (rule generate_subset_with_Inr)
  with assms(1) have "ls = lines" by simp
  with run_lines_words [OF run] have nonblank: "\<forall>l \<in> set lines. parts l \<noteq> []" by simp
  define n where "n = nat K"
  define f where "f i = hd (parts (lines ! i))" for i
  have n_le: "n \<le> length lines" using assms(3) by (simp add: n_def)
  have parts_f: "\<exists>toks. parts (lines ! i) = f i # toks" if "i < n" for i
  proof -
    from that n_le have "lines ! i \<in> set lines" by simp
    with nonblank have "parts (lines ! i) \<noteq> []" by simp
    then show ?thesis by (cases "parts (lines ! i)") (simp_all add: f_def)
  qed
  have below: "int i < K" if "i < n" for i
    using that by (simp add: n_def)
  have sub: "f ` {..<n} \<subseteq> inserted_words K R lines"
  proof
    fix w assume "w \<in> f ` {..<n}"
    then obtain i where i: "i < n" and w: "w = f i" by auto
    from i n_le have il: "i < length lines" by simp
    from parts_f [OF i] obtain toks where p: "parts (lines ! i) = f i # toks" ..
    from assms(4) il below [OF i] p have "length toks = 50" by simp
    with il below [OF i] p show "w \<in> inserted_words K R lines"
      unfolding inserted_words_def w by auto
  qed
  have inj: "inj_on f {..<n}"
  proof (rule inj_onI)
    fix i j assume "i \<in> {..<n}" "j \<in> {..<n}" and e: "f i = f j"
    then have i: "i < n" and j: "j < n" by simp_all
    from i j n_le have il: "i < length lines" and jl: "j < length lines" by simp_all
    from parts_f [OF i] obtain toks where pi: "parts (lines ! i) = f i # toks" ..
    from parts_f [OF j] e obtain toks' where pj: "parts (lines ! j) = f i # toks'" by auto
    from assms(5) il jl below [OF i] below [OF j]
    have "\<forall>w toks toks'. parts (lines ! i) = w # toks \<longrightarrow> parts (lines ! j) = w # toks' \<longrightarrow>
              i = j" by simp
    with pi pj show "i = j" by simp
  qed
  have keys: "fst ` set (written out) = inserted_words K R lines"
    and d: "distinct (map fst (written out))"
    using generate_subset_with_keys(1,2) [OF assms(1,2)] by simp_all
  have "finite (fst ` set (written out))" by simp
  with sub keys have "card (f ` {..<n}) \<le> card (fst ` set (written out))"
    by (simp add: card_mono)
  moreover have "card (f ` {..<n}) = n"
    using inj by (simp add: card_image)
  moreover from distinct_card [OF d] have "card (fst ` set (written out)) = length (written out)"
    by simp
  ultimately have "n \<le> length (written out)" by simp
  then show ?thesis by (simp add: n_def)
qed

lemma generate_subset_with_returns:
  assumes "fs GLOVE_TXT = Some lines"
    and "\<forall>l \<in> set lines. \<exists>w toks. parts l = w # toks \<and> (\<forall>t \<in> set toks. flt t \<noteq> None)"
  shows "\<exists>out. generate_subset_with flt rnd K R fs = Inr out"
proof -
  from run_lines_returns [OF assms(2), of rnd K R initial_state]
  obtain st where "run_lines flt rnd K R initial_state lines = Inr st" ..
  with assms(1) show ?thesis
    by (simp add: generate_subset_with_def initial_state_def Let_def)
qed

text \<open>The scenario of the specification: threshold 2, one required word, four lines.\<close>

lemma scenario_returns:
  "\<exists>out. generate_subset_with py_float py_round6 2 {''king''}
      [GLOVE_TXT \<mapsto> [the_line, of_line, zebra_line, king_line]] = Inr out"
  by (rule generate_subset_with_returns [where lines = "[the_line, of_line, zebra_line, king_line]"])
    (simp_all add: parts_the_line parts_of_line parts_zebra_line parts_king_line py_float_half)

lemma scenario_inserted:
  "inserted_words 2 {''king''} [the_line, of_line, zebra_line, king_line] =
     {''the'', ''of'', ''king''}"
  by (simp add: inserted_words_Cons [OF parts_the_line] inserted_words_Cons [OF parts_of_line]
      inserted_words_Cons [OF parts_zebra_line] inserted_words_Cons [OF parts_king_line]
      inserted_words_Nil insert_commute)

lemma scenario_dimensions:
  "\<forall>i < length [the_line, of_line, zebra_line, king_line]. \<forall>w toks.
      parts ([the_line, of_line, zebra_line, king_line] ! i) = w # toks \<longrightarrow>
      (int i < 2 \<or> w \<in> {''king''}) \<longrightarrow> length toks = 50"
  by (simp add: All_less_Suc2 parts_the_line parts_of_line parts_zebra_line parts_king_line)

theorem generate_subset_keys_witness:
  "(2 :: int) < int (length [the_line, of_line, zebra_line, king_line]) \<and>
   (\<exists>out. generate_subset_with py_float py_round6 2 {''king''}
            [GLOVE_TXT \<mapsto> [the_line, of_line, zebra_line, king_line]] = Inr out \<and>
      fst ` set (written out) = {''the'', ''of'', ''king''} \<and>
      distinct (map fst (written out)) \<and>
      fst ` set (written out) =
        first_words 2 [the_line, of_line, zebra_line, king_line] \<union>
        required_present {''king''} [the_line, of_line, zebra_line, king_line])"
proof -
  let ?lines = "[the_line, of_line, zebra_line, king_line]"
  let ?fs = "[GLOVE_TXT \<mapsto> ?lines]"
  from scenario_returns obtain out
    where out: "generate_subset_with py_float py_round6 2 {''king''} ?fs = Inr out" ..
  have f: "?fs GLOVE_TXT = Some ?lines" by simp
  note t = generate_subset_keys [where fs = ?fs, OF f out]
  from t have k: "fst ` set (written out) = {''the'', ''of'', ''king''}"
    by (simp only: scenario_inserted)
  from t have d: "distinct (map fst (written out))" by (elim conjE)
  from t [THEN conjunct2, THEN conjunct2, rule_format, OF scenario_dimensions [rule_format]]
  have u: "fst ` set (written out) =
        first_words 2 ?lines \<union> required_present {''king''} ?lines" by simp
  have n: "(2 :: int) < int (length ?lines)" by simp
  show ?thesis
    by (rule conjI [OF n], rule exI [of _ out]) (intro conjI out k d u)
qed

text \<open>
  As the claim has it, the keys are the words of the first \<open>K\<close> lines together with the
  required words of the file, for every file of more than \<open>K\<close> lines. A file of 5001
  lines with one component each gives the empty dictionary, while the word of its first
  line is among the words the claim names.
\<close>

theorem first_words_counterexample:
  "VOCAB_SIZE < int (length (replicate 5001 short_line)) \<and>
   map_sum id written (generate_subset [GLOVE_TXT \<mapsto> replicate 5001 short_line]) =
     Inr [] \<and>
   ''the'' \<in> first_words VOCAB_SIZE (replicate 5001 short_line) \<union>
             required_present REQUIRED_WORDS (replicate 5001 short_line)"
proof -
  have a: "VOCAB_SIZE < int (length (replicate 5001 short_line))"
    by (simp add: VOCAB_SIZE_def)
  have "''the'' \<in> first_words VOCAB_SIZE (replicate 5001 short_line)"
    unfolding first_words_def
    by (simp add: VOCAB_SIZE_def) (rule exI [of _ 0], simp add: parts_short_line)
  then have c: "''the'' \<in> first_words VOCAB_SIZE (replicate 5001 short_line) \<union>
             required_present REQUIRED_WORDS (replicate 5001 short_line)" ..
  from generate_subset_all_short [of 5001]
  have b: "map_sum id written (generate_subset [GLOVE_TXT \<mapsto> replicate 5001 short_line]) =
      Inr []"
    by (elim exE conjE) simp
  from a b c show ?thesis by (intro conjI)
qed

theorem subset_size_lower_bound_witness:
  "(2 :: int) \<le> int (length [the_line, of_line, zebra_line, king_line]) \<and>
   (\<exists>out. generate_subset_with py_float py_round6 2 {''king''}
            [GLOVE_TXT \<mapsto> [the_line, of_line, zebra_line, king_line]] = Inr out \<and>
      2 \<le> int (length (written out)))"
proof -
  let ?lines = "[the_line, of_line, zebra_line, king_line]"
  let ?fs = "[GLOVE_TXT \<mapsto> ?lines]"
  from scenario_returns obtain out
    where out: "generate_subset_with py_float py_round6 2 {''king''} ?fs = Inr out" ..
  have f: "?fs GLOVE_TXT = Some ?lines" by simp
  have n: "(2 :: int) \<le> int (length ?lines)" by simp
  have dims: "\<forall>i < length ?lines. int i < 2 \<longrightarrow>
      (\<forall>w toks. parts (?lines ! i) = w # toks \<longrightarrow> length toks = 50)"
    by (simp add: All_less_Suc2 parts_the_line parts_of_line parts_zebra_line parts_king_line)
  have diff: "\<forall>i < length ?lines. \<forall>j < length ?lines. int i < 2 \<longrightarrow> int j < 2 \<longrightarrow>
      (\<forall>w toks toks'. parts (?lines ! i) = w # toks \<longrightarrow> parts (?lines ! j) = w # toks' \<longrightarrow>
         i = j)"
    by (simp add: All_less_Suc2 parts_the_line parts_of_line parts_zebra_line parts_king_line)
  from subset_size_lower_bound [where fs = ?fs, OF f out n dims diff]
  have b: "2 \<le> int (length (written out))" .
  show ?thesis
    by (rule conjI [OF n], rule exI [of _ out]) (intro conjI out b)
qed

text \<open>
  As the claim has it, a file of at least \<open>K\<close> lines gives at least \<open>K\<close> entries. A file
  of 5000 lines with one component each gives none, and a file that repeats one
  well-formed line 5000 times gives one.
\<close>

theorem subset_size_counterexample:
  "VOCAB_SIZE \<le> int (length (replicate 5000 short_line)) \<and>
   map_sum id (length \<circ> written)
     (generate_subset [GLOVE_TXT \<mapsto> replicate 5000 short_line]) = Inr 0 \<and>
   VOCAB_SIZE \<le> int (length (replicate 5000 the_line)) \<and>
   map_sum id (length \<circ> written)
     (generate_subset [GLOVE_TXT \<mapsto> replicate 5000 the_line]) = Inr 1"
proof -
  have a: "VOCAB_SIZE \<le> int (length (replicate 5000 short_line))"
    and c: "VOCAB_SIZE \<le> int (length (replicate 5000 the_line))"
    by (simp_all add: VOCAB_SIZE_def)
  from generate_subset_all_short [of 5000] obtain out
    where o: "generate_subset [GLOVE_TXT \<mapsto> replicate 5000 short_line] = Inr out"
      and e: "written out = []" by (elim exE conjE)
  from e have "length (written out) = 0" by simp
  with o have b: "map_sum id (length \<circ> written)
      (generate_subset [GLOVE_TXT \<mapsto> replicate 5000 short_line]) = Inr 0" by simp
  have "(0 :: nat) < 5000" by simp
  from generate_subset_all_the [OF this] obtain out'
    where o': "generate_subset [GLOVE_TXT \<mapsto> replicate 5000 the_line] = Inr out'"
      and e': "map fst (written out') = [''the'']" by (elim exE conjE)
  from e' have "length (map fst (written out')) = 1" by (simp only: list.size)
  then have "length (written out') = 1" by simp
  with o' have d: "map_sum id (length \<circ> written)
      (generate_subset [GLOVE_TXT \<mapsto> replicate 5000 the_line]) = Inr 1" by simp
  from a b c d show ?thesis by (intro conjI)
qed

section \<open>Properties of the acquisition\<close>

lemma say_fields [simp]:
  "files (say n w) = files w" "fetches (say n w) = fetches w"
  "console (say n w) = console w @ [n]"
  by (simp_all add: say_def)

lemma path_exists_say [simp]: "path_exists (say n w) p = path_exists w p"
  by (simp add: path_exists_def)

lemma urlretrieve_fetches:
  "urlretrieve net url filename w = (r, w') \<Longrightarrow> fetches w' = Suc (fetches w)"
  by (auto simp: urlretrieve_def Let_def split: fetch.splits option.splits)

lemma zip_extract_fetches:
  "zip_extract archive member w = (r, w') \<Longrightarrow> fetches w' = fetches w"
  by (auto simp: zip_extract_def split: option.splits disk_file.splits)

lemma zip_extract_returns:
  "zip_extract archive member w = (Inr u, w') \<Longrightarrow> path_exists w' member"
  by (auto simp: zip_extract_def path_exists_def split: option.splits disk_file.splits)

lemma download_glove_present:
  "path_exists w GLOVE_TXT \<Longrightarrow> download_glove net w = (Inr (), say AlreadyExists w)"
  by (simp add: download_glove_def)

text \<open>The two ways a call goes on when the text file is absent.\<close>

lemma download_glove_zip_present:
  assumes "\<not> path_exists w GLOVE_TXT" and "path_exists w GLOVE_ZIP"
    and "zip_extract GLOVE_ZIP GLOVE_TXT (say Extracting w) = (r2, w2)"
  shows "download_glove net w =
           (case r2 of Inl e \<Rightarrow> (Inl e, w2) | Inr u \<Rightarrow> (Inr u, say Extracted w2))"
  using assms by (cases r2) (simp_all add: download_glove_def)

lemma download_glove_zip_absent:
  assumes "\<not> path_exists w GLOVE_TXT" and "\<not> path_exists w GLOVE_ZIP"
    and "urlretrieve net GLOVE_URL GLOVE_ZIP (say Downloading w) = (r1, w1)"
    and "zip_extract GLOVE_ZIP GLOVE_TXT (say Extracting (say DownloadComplete w1)) = (r2, w2)"
  shows "download_glove net w =
           (case r1 of
              Inl e \<Rightarrow> (Inl e, w1)
            | Inr _ \<Rightarrow>
                (case r2 of Inl e \<Rightarrow> (Inl e, w2) | Inr u \<Rightarrow> (Inr u, say Extracted w2)))"
proof (cases r1)
  case (Inl e)
  with assms(1-3) show ?thesis by (simp add: download_glove_def)
next
  case (Inr v)
  with assms show ?thesis by (cases r2) (simp_all add: download_glove_def)
qed

lemma download_glove_fetches:
  assumes "download_glove net w = (r, w')"
  shows "fetches w' \<le> fetches w + 1"
proof (cases "path_exists w GLOVE_TXT")
  case True
  from download_glove_present [OF True, of net] assms show ?thesis by simp
next
  case False
  show ?thesis
  proof (cases "path_exists w GLOVE_ZIP")
    case True
    obtain r2 w2 where z: "zip_extract GLOVE_ZIP GLOVE_TXT (say Extracting w) = (r2, w2)"
      by (cases "zip_extract GLOVE_ZIP GLOVE_TXT (say Extracting w)")
    from zip_extract_fetches [OF z] have "fetches w2 = fetches w" by simp
    with download_glove_zip_present [OF False True z, of net] assms show ?thesis
      by (cases r2) simp_all
  next
    case no_zip: False
    obtain r1 w1 where u: "urlretrieve net GLOVE_URL GLOVE_ZIP (say Downloading w) = (r1, w1)"
      by (cases "urlretrieve net GLOVE_URL GLOVE_ZIP (say Downloading w)")
    obtain r2 w2 where z: "zip_extract GLOVE_ZIP GLOVE_TXT
        (say Extracting (say DownloadComplete w1)) = (r2, w2)"
      by (cases "zip_extract GLOVE_ZIP GLOVE_TXT (say Extracting (say DownloadComplete w1))")
    from urlretrieve_fetches [OF u] have f1: "fetches w1 = Suc (fetches w)" by simp
    from zip_extract_fetches [OF z] f1 have f2: "fetches w2 = Suc (fetches w)" by simp
    from download_glove_zip_absent [OF False no_zip u z] assms f1 f2 show ?thesis
      by (cases r1; cases r2) simp_all
  qed
qed

lemma download_glove_returns:
  assumes "download_glove net w = (Inr u, w')"
  shows "path_exists w' GLOVE_TXT"
proof (cases "path_exists w GLOVE_TXT")
  case True
  from download_glove_present [OF True, of net] assms True show ?thesis by auto
next
  case False
  show ?thesis
  proof (cases "path_exists w GLOVE_ZIP")
    case True
    obtain r2 w2 where z: "zip_extract GLOVE_ZIP GLOVE_TXT (say Extracting w) = (r2, w2)"
      by (cases "zip_extract GLOVE_ZIP GLOVE_TXT (say Extracting w)")
    from download_glove_zip_present [OF False True z, of net] assms
    obtain v where "r2 = Inr v" and "w' = say Extracted w2"
      by (cases r2) simp_all
    with z zip_extract_returns [of GLOVE_ZIP GLOVE_TXT "say Extracting w" v w2]
    show ?thesis by simp
  next
    case no_zip: False
    obtain r1 w1 where d: "urlretrieve net GLOVE_URL GLOVE_ZIP (say Downloading w) = (r1, w1)"
      by (cases "urlretrieve net GLOVE_URL GLOVE_ZIP (say Downloading w)")
    obtain r2 w2 where z: "zip_extract GLOVE_ZIP GLOVE_TXT
        (say Extracting (say DownloadComplete w1)) = (r2, w2)"
      by (cases "zip_extract GLOVE_ZIP GLOVE_TXT (say Extracting (say DownloadComplete w1))")
    from download_glove_zip_absent [OF False no_zip d z] assms
    obtain v where "r2 = Inr v" and "w' = say Extracted w2"
      by (cases r1; cases r2) simp_all
    with z zip_extract_returns [of GLOVE_ZIP GLOVE_TXT
        "say Extracting (say DownloadComplete w1)" v w2]
    show ?thesis by simp
  qed
qed

text \<open>
  C7. \<open>download_glove\<close> with the text file present returns at once: it prints one line
  and leaves the files and the count of network accesses as they were. A call that
  returns leaves the text file present, so a second call right after it is such a
  no-op, whatever the network does then; and two calls in a row use the network at most
  once.
\<close>

theorem download_glove_idempotent:
  "(path_exists w GLOVE_TXT \<longrightarrow>
      download_glove net w = (Inr (), say AlreadyExists w) \<and>
      files (snd (download_glove net w)) = files w \<and>
      fetches (snd (download_glove net w)) = fetches w) \<and>
   (\<forall>w1. download_glove net w = (Inr (), w1) \<longrightarrow>
      path_exists w1 GLOVE_TXT \<and>
      fetches w1 \<le> fetches w + 1 \<and>
      download_glove net' w1 = (Inr (), say AlreadyExists w1)) \<and>
   fetches (snd (download_glove_twice net net' w)) \<le> fetches w + 1"
proof (intro conjI impI allI)
  assume p: "path_exists w GLOVE_TXT"
  then show "download_glove net w = (Inr (), say AlreadyExists w)"
    by (rule download_glove_present)
  then show "files (snd (download_glove net w)) = files w"
    and "fetches (snd (download_glove net w)) = fetches w"
    by simp_all
next
  fix w1 assume r: "download_glove net w = (Inr (), w1)"
  then show e: "path_exists w1 GLOVE_TXT" by (rule download_glove_returns)
  from r show "fetches w1 \<le> fetches w + 1" by (rule download_glove_fetches)
  from e show "download_glove net' w1 = (Inr (), say AlreadyExists w1)"
    by (rule download_glove_present)
next
  obtain r w1 where first: "download_glove net w = (r, w1)"
    by (cases "download_glove net w")
  then have le: "fetches w1 \<le> fetches w + 1" by (rule download_glove_fetches)
  show "fetches (snd (download_glove_twice net net' w)) \<le> fetches w + 1"
  proof (cases r)
    case (Inl e)
    with first le show ?thesis by (simp add: download_glove_twice_def)
  next
    case (Inr u)
    with first have "path_exists w1 GLOVE_TXT" by (auto dest: download_glove_returns)
    then have "download_glove net' w1 = (Inr (), say AlreadyExists w1)"
      by (rule download_glove_present)
    with first Inr le show ?thesis by (simp add: download_glove_twice_def)
  qed
qed

lemma download_sample:
  "download_glove sample_net empty_world =
     (Inr (),
      \<lparr>files = [GLOVE_ZIP \<mapsto> ZipArchive [(GLOVE_TXT, [the_line, king_line])],
                GLOVE_TXT \<mapsto> TextFile [the_line, king_line]],
       fetches = 1,
       console = [Downloading, DownloadComplete, Extracting, Extracted]\<rparr>)"
  by (simp add: download_glove_def urlretrieve_def zip_extract_def path_exists_def say_def
      empty_world_def sample_net_def Let_def)

theorem download_glove_idempotent_witness:
  "(\<exists>w1. download_glove sample_net empty_world = (Inr (), w1) \<and>
      path_exists w1 GLOVE_TXT \<and>
      fetches w1 = 1 \<and>
      download_glove no_net w1 = (Inr (), say AlreadyExists w1) \<and>
      files (snd (download_glove no_net w1)) = files w1 \<and>
      fetches (snd (download_glove no_net w1)) = 1) \<and>
   fetches (snd (download_glove_twice sample_net sample_net empty_world)) \<le> 1"
proof -
  let ?w1 = "\<lparr>files = [GLOVE_ZIP \<mapsto> ZipArchive [(GLOVE_TXT, [the_line, king_line])],
                GLOVE_TXT \<mapsto> TextFile [the_line, king_line]],
       fetches = 1,
       console = [Downloading, DownloadComplete, Extracting, Extracted]\<rparr>"
  note t = download_glove_idempotent [of empty_world sample_net]
  note second = t [of no_net, THEN conjunct2, THEN conjunct1, rule_format, OF download_sample]
  from second have p: "path_exists ?w1 GLOVE_TXT" by (rule conjunct1)
  from second have n: "download_glove no_net ?w1 = (Inr (), say AlreadyExists ?w1)"
    by (elim conjE)
  have f: "fetches ?w1 = 1" by simp
  note present = download_glove_idempotent [of ?w1 no_net, THEN conjunct1, rule_format, OF p]
  from present have g: "files (snd (download_glove no_net ?w1)) = files ?w1"
    by (elim conjE)
  from present f have h: "fetches (snd (download_glove no_net ?w1)) = 1"
    by (elim conjE) simp
  from t [of sample_net, THEN conjunct2, THEN conjunct2]
  have twice: "fetches (snd (download_glove_twice sample_net sample_net empty_world)) \<le> 1"
    by (simp add: empty_world_def)
  show ?thesis
    by (rule conjI [OF _ twice], rule exI [of _ ?w1]) (intro conjI download_sample p f n g h)
qed

section \<open>Properties of the rounding\<close>

text \<open>\<open>binexp\<close> is the exponent of the binade of a positive number.\<close>

lemma bits_bounds:
  "0 < n \<Longrightarrow> 0 < bits n \<and> 2 ^ nat (bits n - 1) \<le> n \<and> n < 2 ^ nat (bits n)"
proof (induction n rule: bits.induct)
  case (1 n)
  show ?case
  proof (cases "n = 1")
    case True
    then show ?thesis by (simp add: bits.simps)
  next
    case False
    with "1.prems" have m: "0 < n div 2" by simp
    from "1.prems" have nn: "\<not> n \<le> 0" by simp
    from "1.IH" [OF nn m] have pos: "0 < bits (n div 2)"
      and lo: "2 ^ nat (bits (n div 2) - 1) \<le> n div 2"
      and hi: "n div 2 < 2 ^ nat (bits (n div 2))" by simp_all
    have b: "bits n = 1 + bits (n div 2)"
      using "1.prems" by (subst bits.simps) simp
    have e: "nat (bits (n div 2)) = Suc (nat (bits (n div 2) - 1))"
      using pos by simp
    have "2 ^ nat (bits (n div 2)) \<le> 2 * (n div 2)"
      using lo by (subst e) simp
    also have "\<dots> \<le> n" by simp
    finally have l: "2 ^ nat (bits n - 1) \<le> n" by (simp add: b)
    have "n < 2 * (n div 2 + 1)" by simp
    also have "\<dots> \<le> 2 * 2 ^ nat (bits (n div 2))" using hi by simp
    also have "\<dots> = 2 ^ nat (bits n)" using pos by (simp add: b nat_add_distrib)
    finally have h: "n < 2 ^ nat (bits n)" .
    from pos l h show ?thesis by (simp add: b)
  qed
qed

lemma binexp_bounds:
  assumes "0 < v"
  shows "pow2 (binexp v) \<le> v \<and> v < pow2 (binexp v + 1)"
proof (cases "1 \<le> v")
  case True
  define n where "n = \<lfloor>v\<rfloor>"
  have n1: "0 < n" using True by (simp add: n_def)
  have nv: "of_int n \<le> v" and vn: "v < of_int n + 1" by (simp_all add: n_def) linarith
  from bits_bounds [OF n1] have pos: "0 < bits n"
    and lo: "2 ^ nat (bits n - 1) \<le> n" and hi: "n < 2 ^ nat (bits n)" by simp_all
  have e: "binexp v = bits n - 1" using True by (simp add: binexp_def n_def)
  have "(of_int (2 ^ nat (bits n - 1)) :: rat) \<le> of_int n"
    using lo by (rule of_int_le_iff [THEN iffD2])
  then have "(2 :: rat) ^ nat (bits n - 1) \<le> of_int n" by simp
  with nv have "2 ^ nat (bits n - 1) \<le> v" by linarith
  then have a: "pow2 (binexp v) \<le> v" using pos by (simp add: e pow2_def)
  from hi have "n + 1 \<le> 2 ^ nat (bits n)" by simp
  then have "(of_int (n + 1) :: rat) \<le> of_int (2 ^ nat (bits n))"
    by (rule of_int_le_iff [THEN iffD2])
  then have "of_int n + 1 \<le> (2 :: rat) ^ nat (bits n)" by simp
  with vn have "v < 2 ^ nat (bits n)" by linarith
  then have b: "v < pow2 (binexp v + 1)" using pos by (simp add: e pow2_def)
  from a b show ?thesis ..
next
  case False
  define u where "u = 1 / v"
  define c where "c = \<lceil>u\<rceil>"
  have u1: "1 < u" using False assms by (simp add: u_def)
  have cu: "u \<le> of_int c" and uc: "of_int c - 1 < u" by (simp_all add: c_def) linarith
  from u1 cu have "1 < (of_int c :: rat)" by linarith
  then have c2: "0 < c - 1" by simp
  define k where "k = bits (c - 1)"
  from bits_bounds [OF c2] have pos: "0 < k"
    and lo: "2 ^ nat (k - 1) \<le> c - 1" and hi: "c - 1 < 2 ^ nat k" by (simp_all add: k_def)
  have e: "binexp v = - k" using False by (simp add: binexp_def k_def c_def u_def)
  from hi have "c \<le> 2 ^ nat k" by simp
  then have "(of_int c :: rat) \<le> of_int (2 ^ nat k)"
    by (rule of_int_le_iff [THEN iffD2])
  then have "of_int c \<le> (2 :: rat) ^ nat k" by simp
  with cu have ub: "u \<le> 2 ^ nat k" by linarith
  from lo have "(of_int (2 ^ nat (k - 1)) :: rat) \<le> of_int (c - 1)"
    by (rule of_int_le_iff [THEN iffD2])
  then have "(2 :: rat) ^ nat (k - 1) \<le> of_int c - 1" by simp
  with uc have lb: "2 ^ nat (k - 1) < u" by linarith
  have v: "v = 1 / u" using assms by (simp add: u_def)
  have upos: "0 < u" using u1 by simp
  have p: "pow2 (binexp v) = 1 / 2 ^ nat k" using pos by (simp add: e pow2_def)
  have "1 / 2 ^ nat k \<le> 1 / u"
    using ub upos by (simp add: field_simps)
  then have a: "pow2 (binexp v) \<le> v" unfolding p by (simp only: v)
  have b: "v < pow2 (binexp v + 1)"
  proof (cases "k = 1")
    case True
    then have "pow2 (binexp v + 1) = 1" by (simp add: e pow2_def)
    moreover have "1 / u < 1" using u1 by simp
    ultimately show ?thesis by (simp only: v [symmetric])
  next
    case False
    with pos have "1 < k" by simp
    then have q: "pow2 (binexp v + 1) = 1 / 2 ^ nat (k - 1)"
      by (simp add: e pow2_def)
    have "1 / u < 1 / 2 ^ nat (k - 1)"
      using lb upos by (simp add: field_simps)
    then show ?thesis unfolding q by (simp only: v)
  qed
  from a b show ?thesis ..
qed

lemma round_half_even_near: "\<bar>of_int (round_half_even x) - x\<bar> \<le> 1 / 2"
proof -
  define f where "f = \<lfloor>x\<rfloor>"
  have a: "of_int f \<le> x" and b: "x < of_int f + 1"
    unfolding f_def by linarith+
  have r: "round_half_even x =
      (if x - of_int f < 1 / 2 then f
       else if 1 / 2 < x - of_int f then f + 1
       else if even f then f else f + 1)"
    by (simp add: round_half_even_def Let_def f_def)
  from a b show ?thesis
    unfolding r by (simp add: abs_if)
qed

lemma py_float_sample: "py_float ''0.1234567'' = Some (Finite False (4447996384931129 / 36028797018963968))"
  by (simp add: parse_eval round_eval)

lemma py_float_sample_rounded:
  "py_float ''0.123457'' = Some (Finite False (8896014387140469 / 72057594037927936))"
  by (simp add: parse_eval round_eval)

lemma py_round6_sample:
  "py_round6 (Finite False (4447996384931129 / 36028797018963968)) =
     Finite False (8896014387140469 / 72057594037927936)"
  by (simp add: py_round6_def round_eval)

lemma generate_sample_file:
  "generate_subset [GLOVE_TXT \<mapsto> [the_line, king_line, short_line]] =
     Inr \<lparr>stdout = [Reading, Total 2,
                    (if REQUIRED_WORDS - {''the'', ''king''} \<noteq> {}
                     then MissingRequired (REQUIRED_WORDS - {''the'', ''king''})
                     else AllRequiredFound), Writing, Wrote],
          missing = REQUIRED_WORDS - {''the'', ''king''},
          written = [(''the'', replicate 50 (Finite False (1 / 2))),
                     (''king'', replicate 50 (Finite False (1 / 2)))]\<rparr>"
  using run_sample_file
  by (simp add: generate_subset_def generate_subset_with_def initial_state_def Let_def)

text \<open>
  C6. Every component stored for a word is \<open>round(float(t), 6)\<close> of a token \<open>t\<close> of a
  line of that word, in the order of the tokens. \<open>round(x, 6)\<close> of a finite \<open>x\<close> other
  than zero is the binary64 value nearest to \<open>n / 10^6\<close> for an integer \<open>n\<close> within one
  half of \<open>x * 10^6\<close>, that is, \<open>x\<close> rounded to 6 decimal places. For the token
  \<open>0.1234567\<close> the stored value is the float \<open>0.123457\<close>.
\<close>

theorem components_rounded:
  "(\<forall>fs lines out w vec. fs GLOVE_TXT = Some lines \<longrightarrow> generate_subset fs = Inr out \<longrightarrow>
      (w, vec) \<in> set (written out) \<longrightarrow>
      (\<exists>l \<in> set lines. \<exists>toks. parts l = w # toks \<and>
          (\<forall>t \<in> set toks. py_float t \<noteq> None) \<and>
          vec = map (\<lambda>t. py_round6 (the (py_float t))) toks)) \<and>
   (\<forall>s v. v \<noteq> 0 \<longrightarrow>
      (\<exists>n. py_round6 (Finite s v) = to_double s (of_int n / 10 ^ 6) \<and>
           \<bar>of_int n - v * 10 ^ 6\<bar> \<le> 1 / 2)) \<and>
   map_option py_round6 (py_float ''0.1234567'') = py_float ''0.123457''"
proof (intro conjI allI impI)
  fix fs lines out w vec
  assume f: "fs GLOVE_TXT = Some lines" and g: "generate_subset fs = Inr out"
    and m: "(w, vec) \<in> set (written out)"
  from g obtain ls st where "fs GLOVE_TXT = Some ls"
    and run: "run_lines py_float py_round6 VOCAB_SIZE REQUIRED_WORDS initial_state ls = Inr st"
    and wr: "written out = embeddings st"
    unfolding generate_subset_def by (rule generate_subset_with_Inr)
  with f have ls: "ls = lines" by simp
  from m wr have "(w, vec) \<in> set (embeddings st)" by simp
  from run_lines_origin [OF run this]
  show "\<exists>l \<in> set lines. \<exists>toks. parts l = w # toks \<and>
          (\<forall>t \<in> set toks. py_float t \<noteq> None) \<and>
          vec = map (\<lambda>t. py_round6 (the (py_float t))) toks"
    by (simp add: initial_state_def ls)
next
  fix s :: bool and v :: rat
  assume "v \<noteq> 0"
  then have "py_round6 (Finite s v) =
      to_double s (of_int (round_half_even (v * 10 ^ 6)) / 10 ^ 6)"
    by (simp add: py_round6_def)
  moreover have "\<bar>of_int (round_half_even (v * 10 ^ 6)) - v * 10 ^ 6\<bar> \<le> 1 / 2"
    by (rule round_half_even_near)
  ultimately show "\<exists>n. py_round6 (Finite s v) = to_double s (of_int n / 10 ^ 6) \<and>
           \<bar>of_int n - v * 10 ^ 6\<bar> \<le> 1 / 2"
    by (intro exI conjI)
next
  show "map_option py_round6 (py_float ''0.1234567'') = py_float ''0.123457''"
    by (simp only: py_float_sample py_float_sample_rounded option.map py_round6_sample)
qed

theorem components_rounded_witness:
  "generate_subset [GLOVE_TXT \<mapsto> [the_line, king_line, short_line]] =
     Inr \<lparr>stdout = [Reading, Total 2,
                    (if REQUIRED_WORDS - {''the'', ''king''} \<noteq> {}
                     then MissingRequired (REQUIRED_WORDS - {''the'', ''king''})
                     else AllRequiredFound), Writing, Wrote],
          missing = REQUIRED_WORDS - {''the'', ''king''},
          written = [(''the'', replicate 50 (Finite False (1 / 2))),
                     (''king'', replicate 50 (Finite False (1 / 2)))]\<rparr> \<and>
   (\<exists>l \<in> set [the_line, king_line, short_line]. \<exists>toks. parts l = ''king'' # toks \<and>
      replicate 50 (Finite False (1 / 2)) = map (\<lambda>t. py_round6 (the (py_float t))) toks) \<and>
   (\<exists>n. py_round6 (Finite False (4447996384931129 / 36028797018963968)) =
          to_double False (of_int n / 10 ^ 6) \<and>
        \<bar>of_int n - 4447996384931129 / 36028797018963968 * 10 ^ 6\<bar> \<le> (1 / 2 :: rat))"
proof -
  let ?fs = "[GLOVE_TXT \<mapsto> [the_line, king_line, short_line]]"
  have f: "?fs GLOVE_TXT = Some [the_line, king_line, short_line]" by simp
  have m: "(''king'', replicate 50 (Finite False (1 / 2))) \<in> set (written
      \<lparr>stdout = [Reading, Total 2,
                    (if REQUIRED_WORDS - {''the'', ''king''} \<noteq> {}
                     then MissingRequired (REQUIRED_WORDS - {''the'', ''king''})
                     else AllRequiredFound), Writing, Wrote],
          missing = REQUIRED_WORDS - {''the'', ''king''},
          written = [(''the'', replicate 50 (Finite False (1 / 2))),
                     (''king'', replicate 50 (Finite False (1 / 2)))]\<rparr>)"
    by simp
  from components_rounded [THEN conjunct1, rule_format, OF f generate_sample_file m]
  have a: "\<exists>l \<in> set [the_line, king_line, short_line]. \<exists>toks. parts l = ''king'' # toks \<and>
      replicate 50 (Finite False (1 / 2)) = map (\<lambda>t. py_round6 (the (py_float t))) toks"
    by (elim bexE exE conjE) (intro bexI exI conjI)
  have nz: "(4447996384931129 / 36028797018963968 :: rat) \<noteq> 0" by simp
  note b = components_rounded [THEN conjunct2, THEN conjunct1, rule_format, OF nz, of False]
  from generate_sample_file a b show ?thesis by (intro conjI)
qed

section \<open>Properties of the output file\<close>



















end
